theory Spec2Isabelle
  imports Main "HOL-Library.Multiset"
begin

section \<open>Errors and results\<close>

text \<open>
  The program is \<^verbatim>\<open>src/project.py\<close>. Python integers are unbounded, so they are
  \<^typ>\<open>int\<close>. A Python string is a \<^typ>\<open>string\<close>, a list of characters with code points
  below 256; text with other characters is outside the model. Every \<^verbatim>\<open>raise\<close> of
  the source is a value: a function that can raise returns \<open>error + 'a\<close>, with \<open>Inl\<close>
  the exception.

  The message of a \<^verbatim>\<open>ValueError\<close> is kept structured. \<open>Text s\<close> is the literal
  message \<open>s\<close> of a \<^verbatim>\<open>raise ValueError(s)\<close> of the source. \<open>Invalid_literal s\<close>
  is the message Python's \<^verbatim>\<open>int()\<close> builds for the rejected string \<open>s\<close>
  (\<^verbatim>\<open>invalid literal for int() with base 10: ...\<close>), and \<open>Exceeds_limit n\<close> the one
  it builds for a literal of \<open>n\<close> digits, more than it converts
  (\<^verbatim>\<open>Exceeds the limit (4300 digits) for integer string conversion: ...\<close>).
  \<open>Invalid_input m\<close> is \<^verbatim>\<open>f"Invalid input: {str(ex)}"\<close> around the message \<open>m\<close> of
  the caught exception.

  \<open>LibraryFailure\<close> stands for a call into the routing library that does not return:
  the binding raises, or the library aborts the process.
\<close>

datatype message = Text string | Invalid_literal string | Exceeds_limit nat | Invalid_input message

datatype error = ValueError message | AssertionError string | IndexError | LibraryFailure

section \<open>The data model\<close>

text \<open>
  \<^verbatim>\<open>create_data_model\<close> builds a dictionary with five fixed keys; it is a record.
\<close>

record data_model =
  distance_matrix :: "int list list"
  demands :: "int list"
  vehicle_capacities :: "int list"
  num_vehicles :: int
  depot :: nat

text \<open>
  \<^verbatim>\<open>[vehicle_capacity] * num_customers\<close>: Python's list repetition gives the empty list
  for a count that is zero or negative, which is what \<^term>\<open>nat\<close> does to the count.
\<close>

definition create_data_model :: "int \<Rightarrow> int \<Rightarrow> int list \<Rightarrow> int list list \<Rightarrow> error + data_model" where
  "create_data_model num_customers vehicle_capacity customer_demands edges =
     (let data = \<lparr> distance_matrix = edges,
                   demands = 0 # customer_demands,
                   vehicle_capacities = replicate (nat num_customers) vehicle_capacity,
                   num_vehicles = num_customers,
                   depot = 0 \<rparr>
      in if int (length (demands data)) = num_customers + 1 then Inr data
         else Inl (AssertionError ''Customer demands length should be num_customers + 1''))"

section \<open>Parsing and validating the raw input\<close>

subsection \<open>Python's string operations\<close>

text \<open>
  \<^verbatim>\<open>s.split(sep)\<close> for a one-character separator: the string is cut at every
  occurrence of the separator, so the result has one more piece than there are
  separators, and the empty string gives one empty piece.
\<close>

fun split :: "char \<Rightarrow> string \<Rightarrow> string list" where
  "split sep [] = [[]]"
| "split sep (c # cs) =
     (if c = sep then [] # split sep cs
      else (case split sep cs of
              [] \<Rightarrow> [[c]]
            | w # ws \<Rightarrow> (c # w) # ws))"

text \<open>
  \<^verbatim>\<open>int(s)\<close> on a string, base 10. Characters from code point 127 on are first
  replaced: the two spaces among them (133 and 160) by a blank, the others by a question
  mark. Then the whitespace at both ends is skipped (tab, line feed, vertical tab, form
  feed, carriage return and space; the separators 28 to 31 are not skipped), one sign is
  allowed, then come decimal digits, where single underscores may stand between two
  digits. Anything else raises \<^verbatim>\<open>ValueError\<close>. So does a literal of more than 4300
  digits, the default limit of the interpreter (CPython 3.11 and later), which the
  program does not change; leading zeros count as digits.
\<close>

definition to_ascii :: "char \<Rightarrow> char" where
  "to_ascii c =
     (if (of_char c :: nat) < 127 then c
      else if (of_char c :: nat) \<in> {133, 160} then CHR '' '' else CHR ''?'')"

definition is_space :: "char \<Rightarrow> bool" where
  "is_space c = ((of_char c :: nat) \<in> {9, 10, 11, 12, 13, 32})"

definition is_digit :: "char \<Rightarrow> bool" where
  "is_digit c = (48 \<le> (of_char c :: nat) \<and> (of_char c :: nat) \<le> 57)"

definition digit_val :: "char \<Rightarrow> nat" where
  "digit_val c = of_char c - 48"

definition strip :: "string \<Rightarrow> string" where
  "strip s = rev (dropWhile is_space (rev (dropWhile is_space s)))"

text \<open>\<open>parse_digits acc s\<close> reads what follows a digit; \<open>acc\<close> is the value read so far.\<close>

fun parse_digits :: "nat \<Rightarrow> string \<Rightarrow> nat option" where
  "parse_digits acc [] = Some acc"
| "parse_digits acc (c # cs) =
     (if c = CHR ''_'' then
        (case cs of
           [] \<Rightarrow> None
         | d # ds \<Rightarrow> if is_digit d then parse_digits (10 * acc + digit_val d) ds else None)
      else if is_digit c then parse_digits (10 * acc + digit_val c) cs
      else None)"

definition parse_unsigned :: "string \<Rightarrow> nat option" where
  "parse_unsigned s =
     (case s of
        [] \<Rightarrow> None
      | c # cs \<Rightarrow> if is_digit c then parse_digits (digit_val c) cs else None)"

definition parse_signed :: "string \<Rightarrow> int option" where
  "parse_signed s =
     (case s of
        [] \<Rightarrow> None
      | c # cs \<Rightarrow>
          if c = CHR ''-'' then map_option (\<lambda>n. - int n) (parse_unsigned cs)
          else if c = CHR ''+'' then map_option int (parse_unsigned cs)
          else map_option int (parse_unsigned s))"

definition digit_count :: "string \<Rightarrow> nat" where
  "digit_count s = length (filter is_digit s)"

definition max_str_digits :: nat where
  "max_str_digits = 4300"

definition py_int :: "string \<Rightarrow> error + int" where
  "py_int s =
     (case parse_signed (strip (map to_ascii s)) of
        None \<Rightarrow> Inl (ValueError (Invalid_literal s))
      | Some v \<Rightarrow>
          if max_str_digits < digit_count (strip (map to_ascii s))
          then Inl (ValueError (Exceeds_limit (digit_count (strip (map to_ascii s)))))
          else Inr v)"

text \<open>\<^verbatim>\<open>list(map(int, tokens))\<close>: the first token that is rejected raises.\<close>

fun map_int :: "string list \<Rightarrow> error + int list" where
  "map_int [] = Inr []"
| "map_int (t # ts) =
     (case py_int t of
        Inl e \<Rightarrow> Inl e
      | Inr v \<Rightarrow> (case map_int ts of Inl e \<Rightarrow> Inl e | Inr vs \<Rightarrow> Inr (v # vs)))"

subsection \<open>\<^verbatim>\<open>parse_input\<close>\<close>

text \<open>The loop of lines 19 to 21: one row per piece between semicolons.\<close>

fun parse_rows :: "string list \<Rightarrow> error + int list list" where
  "parse_rows [] = Inr []"
| "parse_rows (line # lines) =
     (case map_int (split CHR '','' line) of
        Inl e \<Rightarrow> Inl e
      | Inr row \<Rightarrow> (case parse_rows lines of Inl e \<Rightarrow> Inl e | Inr rows \<Rightarrow> Inr (row # rows)))"

definition square_message :: string where
  "square_message =
     ''The edges matrix must be a square matrix of size (num_customers + 1) x (num_customers + 1).''"

text \<open>The loop of lines 27 to 29; \<open>n\<close> is \<^verbatim>\<open>len(edges)\<close>.\<close>

fun check_rows :: "nat \<Rightarrow> int list list \<Rightarrow> error + unit" where
  "check_rows n [] = Inr ()"
| "check_rows n (row # rows) =
     (if length row \<noteq> n then Inl (ValueError (Text square_message))
      else check_rows n rows)"

text \<open>
  The double loop of lines 32 to 39, over the index pairs in the order the loops visit
  them. It runs only after \<open>check_rows\<close> has passed, so every index is in range.
\<close>

fun check_cells :: "int list list \<Rightarrow> (nat \<times> nat) list \<Rightarrow> error + unit" where
  "check_cells edges [] = Inr ()"
| "check_cells edges ((i, j) # ps) =
     (if edges ! i ! j \<noteq> edges ! j ! i then
        Inl (ValueError (Text ''The edges matrix must be symmetric.''))
      else if i = j \<and> edges ! i ! j \<noteq> 0 then
        Inl (ValueError (Text ''The diagonal elements of the edges matrix must be zero.''))
      else if i \<noteq> j \<and> edges ! i ! j = 0 then
        Inl (ValueError (Text ''The non-diagonal elements of the edges matrix must be non-zero.''))
      else check_cells edges ps)"

definition index_pairs :: "nat \<Rightarrow> (nat \<times> nat) list" where
  "index_pairs n = List.product [0..<n] [0..<n]"

text \<open>The body of the \<^verbatim>\<open>try\<close> block, lines 9 to 42.\<close>

definition parse_body ::
  "string \<Rightarrow> string \<Rightarrow> string \<Rightarrow> string \<Rightarrow> error + (int \<times> int \<times> int list \<times> int list list)" where
  "parse_body num_customers_str vehicle_capacity_str customer_demands_str edges_str =
     (case py_int num_customers_str of Inl e \<Rightarrow> Inl e | Inr num_customers \<Rightarrow>
      case py_int vehicle_capacity_str of Inl e \<Rightarrow> Inl e | Inr vehicle_capacity \<Rightarrow>
      case map_int (split CHR '','' customer_demands_str) of Inl e \<Rightarrow> Inl e | Inr customer_demands \<Rightarrow>
      if int (length customer_demands) \<noteq> num_customers then
        Inl (ValueError (Text
          ''The length of customer demands must be equal to the number of customers.''))
      else
      case parse_rows (split CHR '';'' edges_str) of Inl e \<Rightarrow> Inl e | Inr edges \<Rightarrow>
      if int (length edges) \<noteq> num_customers + 1 then Inl (ValueError (Text square_message))
      else
      case check_rows (length edges) edges of Inl e \<Rightarrow> Inl e | Inr _ \<Rightarrow>
      case check_cells edges (index_pairs (length edges)) of Inl e \<Rightarrow> Inl e | Inr _ \<Rightarrow>
      Inr (num_customers, vehicle_capacity, customer_demands, edges))"

text \<open>
  The \<^verbatim>\<open>except ValueError\<close> clause wraps the message of a \<^verbatim>\<open>ValueError\<close>; any
  other exception would pass through unchanged.
\<close>

definition parse_input ::
  "string \<Rightarrow> string \<Rightarrow> string \<Rightarrow> string \<Rightarrow> error + (int \<times> int \<times> int list \<times> int list list)" where
  "parse_input num_customers_str vehicle_capacity_str customer_demands_str edges_str =
     (case parse_body num_customers_str vehicle_capacity_str customer_demands_str edges_str of
        Inl (ValueError m) \<Rightarrow> Inl (ValueError (Invalid_input m))
      | Inl e \<Rightarrow> Inl e
      | Inr r \<Rightarrow> Inr r)"

section \<open>Decoding and reporting a solution\<close>

subsection \<open>The routing library's objects\<close>

text \<open>
  \<^verbatim>\<open>print_solution\<close> reads the solution through five calls on the objects of the
  routing library: \<^verbatim>\<open>routing.Start(vehicle_id)\<close>, \<^verbatim>\<open>routing.IsEnd(index)\<close>,
  \<^verbatim>\<open>manager.IndexToNode(index)\<close>, \<^verbatim>\<open>solution.Value(routing.NextVar(index))\<close> and
  \<^verbatim>\<open>routing.GetArcCostForVehicle(from_index, to_index, vehicle_id)\<close>. The library is
  not part of the program, so the five are the fields of a record that the functions
  below take as a parameter. Indices and nodes are never negative, and the library
  answers each of the five calls with a value.
\<close>

record routing_solution =
  Start :: "nat \<Rightarrow> nat"
  IsEnd :: "nat \<Rightarrow> bool"
  IndexToNode :: "nat \<Rightarrow> nat"
  NextValue :: "nat \<Rightarrow> nat"
  GetArcCostForVehicle :: "nat \<Rightarrow> nat \<Rightarrow> nat \<Rightarrow> int"

text \<open>Reading a list at an index that is not negative; out of range raises.\<close>

definition py_nth :: "'a list \<Rightarrow> nat \<Rightarrow> error + 'a" where
  "py_nth xs i = (if i < length xs then Inr (xs ! i) else Inl IndexError)"

text \<open>
  The two callbacks of \<^verbatim>\<open>solve_routing_problem\<close>, lines 125 to 128 and 135 to 137.
  The program hands them to the library (lines 131 and 140) and never calls them itself.
\<close>

definition distance_callback :: "data_model \<Rightarrow> routing_solution \<Rightarrow> nat \<Rightarrow> nat \<Rightarrow> error + int" where
  "distance_callback data env from_index to_index =
     (case py_nth (distance_matrix data) (IndexToNode env from_index) of
        Inl e \<Rightarrow> Inl e
      | Inr row \<Rightarrow> py_nth row (IndexToNode env to_index))"

definition demand_callback :: "data_model \<Rightarrow> routing_solution \<Rightarrow> nat \<Rightarrow> error + int" where
  "demand_callback data env from_index = py_nth (demands data) (IndexToNode env from_index)"

subsection \<open>\<^verbatim>\<open>print_solution\<close>\<close>

text \<open>
  An entry of \<^verbatim>\<open>route\<close> is the triple \<^verbatim>\<open>(node_index, route_load, route_distance)\<close>.
\<close>

type_synonym stop = "nat \<times> int \<times> int"

text \<open>
  The \<^verbatim>\<open>while\<close> loop of lines 78 to 84. The loop follows the solution's next pointers
  and nothing in the program bounds it, so the function is partial: \<open>None\<close> is a loop
  that never ends. The state is \<^verbatim>\<open>index\<close>, \<^verbatim>\<open>previous_index\<close>, \<^verbatim>\<open>route_load\<close>,
  \<^verbatim>\<open>route_distance\<close> and \<^verbatim>\<open>route\<close>.
\<close>

partial_function (option) walk ::
  "data_model \<Rightarrow> routing_solution \<Rightarrow> nat \<Rightarrow> nat \<Rightarrow> nat \<Rightarrow> int \<Rightarrow> int \<Rightarrow> stop list \<Rightarrow>
   (error + nat \<times> nat \<times> int \<times> int \<times> stop list) option" where
  "walk data env vehicle_id index previous_index route_load route_distance route =
     (if IsEnd env index then
        Some (Inr (index, previous_index, route_load, route_distance, route))
      else
        (case py_nth (demands data) (IndexToNode env index) of
           Inl e \<Rightarrow> Some (Inl e)
         | Inr d \<Rightarrow>
             walk data env vehicle_id (NextValue env index) index
               (route_load + d)
               (route_distance + GetArcCostForVehicle env previous_index index vehicle_id)
               (route @ [(IndexToNode env index, route_load + d,
                          route_distance + GetArcCostForVehicle env previous_index index vehicle_id)])))"

declare walk.simps [code]

text \<open>
  Lines 87 to 90: after the loop, the entry for the end index is appended. The result is
  the final \<^verbatim>\<open>index\<close> and the finished \<^verbatim>\<open>route\<close>.
\<close>

definition close_route ::
  "data_model \<Rightarrow> routing_solution \<Rightarrow> nat \<Rightarrow>
   (error + nat \<times> nat \<times> int \<times> int \<times> stop list) option \<Rightarrow> (error + nat \<times> stop list) option" where
  "close_route data env vehicle_id after_loop =
     (case after_loop of
        None \<Rightarrow> None
      | Some (Inl e) \<Rightarrow> Some (Inl e)
      | Some (Inr (index, previous_index, route_load, route_distance, route)) \<Rightarrow>
          (case py_nth (demands data) (IndexToNode env index) of
             Inl e \<Rightarrow> Some (Inl e)
           | Inr d \<Rightarrow>
               Some (Inr (index,
                 route @ [(IndexToNode env index, route_load + d,
                           route_distance + GetArcCostForVehicle env previous_index index vehicle_id)]))))"

text \<open>Lines 71 to 90 for one vehicle, starting from \<^verbatim>\<open>routing.Start(vehicle_id)\<close>.\<close>

definition vehicle_route ::
  "data_model \<Rightarrow> routing_solution \<Rightarrow> nat \<Rightarrow> (error + nat \<times> stop list) option" where
  "vehicle_route data env vehicle_id =
     close_route data env vehicle_id
       (walk data env vehicle_id (Start env vehicle_id) (Start env vehicle_id) 0 0 [])"

text \<open>\<^verbatim>\<open>str\<close> of an integer, as the f-strings format it.\<close>

fun str_nat :: "nat \<Rightarrow> string" where
  "str_nat n =
     (if n < 10 then [char_of (48 + n)]
      else str_nat (n div 10) @ [char_of (48 + n mod 10)])"

definition str_int :: "int \<Rightarrow> string" where
  "str_int i = (if i < 0 then CHR ''-'' # str_nat (nat (- i)) else str_nat (nat i))"

definition newline :: string where
  "newline = [CHR 0x0A]"

definition stop_load :: "stop \<Rightarrow> int" where
  "stop_load s = fst (snd s)"

definition stop_distance :: "stop \<Rightarrow> int" where
  "stop_distance s = snd (snd s)"

text \<open>
  The loop of lines 96 to 100 over \<^verbatim>\<open>enumerate(route[:-1])\<close>; \<open>i\<close> is the position.
\<close>

fun stops_text :: "nat \<Rightarrow> stop list \<Rightarrow> string" where
  "stops_text i [] = []"
| "stops_text i ((node, load, distance) # rest) =
     (if i = 0 then
        '' '' @ str_int (int node) @ '' Load('' @ str_int load @ '') Distance(0) ->''
      else
        '' '' @ str_int (int node) @ '' Load('' @ str_int load @ '') Distance('' @
          str_int distance @ '') ->'') @
     stops_text (Suc i) rest"

text \<open>
  Lines 96 to 103: the stops of the route, its last stop, and its distance and load.
\<close>

definition route_lines :: "routing_solution \<Rightarrow> nat \<Rightarrow> stop list \<Rightarrow> string" where
  "route_lines env index route =
     stops_text 0 (butlast route) @
     '' '' @ str_int (int (IndexToNode env index)) @
       '' Load('' @ str_int (stop_load (last route)) @
       '') Distance('' @ str_int (stop_distance (last route)) @ '')'' @ newline @
     ''Distance of the route: '' @ str_int (stop_distance (last route)) @ ''m'' @ newline @
     ''Load of the route: '' @ str_int (stop_load (last route)) @ newline @ newline"

text \<open>Lines 94 to 103, without the increment of the trip number.\<close>

definition plan_output :: "int \<Rightarrow> routing_solution \<Rightarrow> nat \<Rightarrow> stop list \<Rightarrow> string" where
  "plan_output trip_number env index route =
     ''Route for trip '' @ str_int trip_number @ '':'' @ newline @ route_lines env index route"

text \<open>
  The loop over the vehicles, lines 70 to 108. The state is \<^verbatim>\<open>total_distance\<close>,
  \<^verbatim>\<open>total_load\<close>, \<^verbatim>\<open>result_text\<close> and \<^verbatim>\<open>trip_number\<close>.
\<close>

fun vehicles_loop ::
  "data_model \<Rightarrow> routing_solution \<Rightarrow> nat list \<Rightarrow> int \<times> int \<times> string \<times> int \<Rightarrow>
   (error + int \<times> int \<times> string \<times> int) option" where
  "vehicles_loop data env [] state = Some (Inr state)"
| "vehicles_loop data env (vehicle_id # rest) (total_distance, total_load, result_text, trip_number) =
     (case vehicle_route data env vehicle_id of
        None \<Rightarrow> None
      | Some (Inl e) \<Rightarrow> Some (Inl e)
      | Some (Inr (index, route)) \<Rightarrow>
          vehicles_loop data env rest
            (total_distance + (if route \<noteq> [] then stop_distance (last route) else 0),
             total_load + (if route \<noteq> [] then stop_load (last route) else 0),
             (if length route > 2
              then result_text @ plan_output trip_number env index route else result_text),
             (if length route > 2 then trip_number + 1 else trip_number)))"

text \<open>Lines 111 and 112.\<close>

definition totals_text :: "int \<Rightarrow> int \<Rightarrow> string" where
  "totals_text total_distance total_load =
     newline @ ''Total distance of all routes: '' @ str_int total_distance @ ''m'' @ newline @
     ''Total load of all routes: '' @ str_int total_load"

text \<open>\<^verbatim>\<open>range(data['num_vehicles'])\<close> is empty for a count that is not positive.\<close>

definition print_solution :: "data_model \<Rightarrow> routing_solution \<Rightarrow> (error + string) option" where
  "print_solution data env =
     (case vehicles_loop data env [0..<nat (num_vehicles data)] (0, 0, [], 1) of
        None \<Rightarrow> None
      | Some (Inl e) \<Rightarrow> Some (Inl e)
      | Some (Inr (total_distance, total_load, result_text, trip_number)) \<Rightarrow>
          Some (Inr (result_text @ totals_text total_distance total_load)))"

subsection \<open>\<^verbatim>\<open>solve_routing_problem\<close>\<close>

text \<open>
  Lines 121 to 153 build the routing model from \<^verbatim>\<open>data\<close> alone and ask the library
  to solve it. The library works in signed 64-bit integers and checks what it is given:
  it needs a vehicle and a depot among the nodes, capacities that are not negative, and
  capacities and callback results within 64 bits. Otherwise one of the calls of these
  lines fails (the binding cannot convert a value, or the library aborts), and
  \<^verbatim>\<open>solve_routing_problem\<close> returns nothing.
\<close>

definition int64 :: "int \<Rightarrow> bool" where
  "int64 x = (- (2 ^ 63) \<le> x \<and> x < 2 ^ 63)"

definition library_accepts :: "data_model \<Rightarrow> bool" where
  "library_accepts data =
     (0 < num_vehicles data \<and> depot data < length (distance_matrix data) \<and>
      list_all (\<lambda>c. 0 \<le> c \<and> int64 c) (vehicle_capacities data) \<and>
      list_all int64 (demands data) \<and>
      list_all (list_all int64) (distance_matrix data))"

text \<open>
  The library's search is a parameter: given the data it returns a solution or nothing
  (\<^verbatim>\<open>if solution\<close> is then false).
\<close>

definition solve_routing_problem ::
  "(data_model \<Rightarrow> routing_solution option) \<Rightarrow> int \<Rightarrow> int \<Rightarrow> int list \<Rightarrow> int list list \<Rightarrow>
   (error + string) option" where
  "solve_routing_problem SolveWithParameters num_customers vehicle_capacity customer_demands edges =
     (case create_data_model num_customers vehicle_capacity customer_demands edges of
        Inl e \<Rightarrow> Some (Inl e)
      | Inr data \<Rightarrow>
          if \<not> library_accepts data then Some (Inl LibraryFailure)
          else
            (case SolveWithParameters data of
               Some env \<Rightarrow> print_solution data env
             | None \<Rightarrow> Some (Inr ''No solution found.'')))"

section \<open>Specification-side predicates\<close>

subsection \<open>What the validation is to reject\<close>

text \<open>
  The conditions under which the input is to be rejected, stated on the raw text and
  independently of the order in which \<^verbatim>\<open>parse_input\<close> checks them. A token is an
  integer when it is an integer literal as \<^verbatim>\<open>int()\<close> reads one (blanks around an
  optional sign and decimal digits); \<open>int_of\<close> is its value. The tokens are the two
  scalar fields, the comma-separated pieces of the demand field, and the comma-separated
  pieces of every semicolon-separated row of the matrix field.
\<close>

definition is_integer :: "string \<Rightarrow> bool" where
  "is_integer t = (case parse_signed (strip (map to_ascii t)) of None \<Rightarrow> False | Some _ \<Rightarrow> True)"

definition int_of :: "string \<Rightarrow> int" where
  "int_of t = (case parse_signed (strip (map to_ascii t)) of None \<Rightarrow> 0 | Some v \<Rightarrow> v)"

definition raw_demands :: "string \<Rightarrow> int list" where
  "raw_demands customer_demands_str = map int_of (split CHR '','' customer_demands_str)"

definition raw_matrix :: "string \<Rightarrow> int list list" where
  "raw_matrix edges_str = map (\<lambda>line. map int_of (split CHR '','' line)) (split CHR '';'' edges_str)"

definition raw_tokens :: "string \<Rightarrow> string \<Rightarrow> string \<Rightarrow> string \<Rightarrow> string list" where
  "raw_tokens a b c d =
     a # b # split CHR '','' c @ concat (map (split CHR '','') (split CHR '';'' d))"

definition non_integer_token :: "string \<Rightarrow> string \<Rightarrow> string \<Rightarrow> string \<Rightarrow> bool" where
  "non_integer_token a b c d = (\<exists>t \<in> set (raw_tokens a b c d). \<not> is_integer t)"

definition demand_count_mismatch :: "string \<Rightarrow> string \<Rightarrow> bool" where
  "demand_count_mismatch a c = (int (length (raw_demands c)) \<noteq> int_of a)"

definition non_square :: "string \<Rightarrow> string \<Rightarrow> bool" where
  "non_square a d =
     (int (length (raw_matrix d)) \<noteq> int_of a + 1 \<or>
      (\<exists>row \<in> set (raw_matrix d). int (length row) \<noteq> int_of a + 1))"

definition asymmetric :: "int list list \<Rightarrow> bool" where
  "asymmetric m = (\<exists>i \<in> set [0..<length m]. \<exists>j \<in> set [0..<length m]. m ! i ! j \<noteq> m ! j ! i)"

definition nonzero_diagonal :: "int list list \<Rightarrow> bool" where
  "nonzero_diagonal m = (\<exists>i \<in> set [0..<length m]. m ! i ! i \<noteq> 0)"

definition zero_off_diagonal :: "int list list \<Rightarrow> bool" where
  "zero_off_diagonal m =
     (\<exists>i \<in> set [0..<length m]. \<exists>j \<in> set [0..<length m]. i \<noteq> j \<and> m ! i ! j = 0)"

definition malformed :: "string \<Rightarrow> string \<Rightarrow> string \<Rightarrow> string \<Rightarrow> bool" where
  "malformed a b c d =
     (non_integer_token a b c d \<or> demand_count_mismatch a c \<or> non_square a d \<or>
      asymmetric (raw_matrix d) \<or> nonzero_diagonal (raw_matrix d) \<or>
      zero_off_diagonal (raw_matrix d))"

text \<open>
  A token is over the limit when it has more digits than \<^verbatim>\<open>int()\<close> converts. The
  input is rejected when it is malformed or has a token over the limit.
\<close>

definition over_limit :: "string \<Rightarrow> bool" where
  "over_limit t = (max_str_digits < digit_count (strip (map to_ascii t)))"

definition over_limit_token :: "string \<Rightarrow> string \<Rightarrow> string \<Rightarrow> string \<Rightarrow> bool" where
  "over_limit_token a b c d = (\<exists>t \<in> set (raw_tokens a b c d). over_limit t)"

definition rejected :: "string \<Rightarrow> string \<Rightarrow> string \<Rightarrow> string \<Rightarrow> bool" where
  "rejected a b c d = (malformed a b c d \<or> over_limit_token a b c d)"

definition accepted :: "string \<Rightarrow> bool" where
  "accepted t = (is_integer t \<and> \<not> over_limit t)"

definition row_ok :: "string \<Rightarrow> bool" where
  "row_ok line = list_all accepted (split CHR '','' line)"

definition cell_ok :: "int list list \<Rightarrow> nat \<times> nat \<Rightarrow> bool" where
  "cell_ok m p = (case p of (i, j) \<Rightarrow>
     m ! i ! j = m ! j ! i \<and> (i = j \<longrightarrow> m ! i ! j = 0) \<and> (i \<noteq> j \<longrightarrow> m ! i ! j \<noteq> 0))"

text \<open>The sign constraints of the data model, as the specification words them.\<close>

definition sign_constraints :: "int \<Rightarrow> int list \<Rightarrow> int list list \<Rightarrow> bool" where
  "sign_constraints vehicle_capacity customer_demands edges =
     (0 < vehicle_capacity \<and> (\<forall>x \<in> set customer_demands. 0 \<le> x) \<and>
      (\<forall>i \<in> set [0..<length edges]. \<forall>j \<in> set [0..<length edges].
         i \<noteq> j \<longrightarrow> 0 < edges ! i ! j))"

subsection \<open>What the routing library guarantees of a solution\<close>

text \<open>
  Modelled from the spec: the search of the routing library (OR-Tools, called at line
  153) is not part of \<^verbatim>\<open>src/\<close>. What is modelled is the contract of a solution it
  returns, for the model that lines 121 to 146 set up: every vehicle has a chain of
  indices from its start to an end, both bound to the depot; every customer node is on
  exactly one chain, exactly once; and the capacity dimension holds on every chain. The
  dimension is the one registered at lines 141 to 146: its cumulative value is fixed to
  zero at the start, grows over an arc by the value of \<^verbatim>\<open>demand_callback\<close> at the
  arc's from-index with no slack, and lies between zero and the vehicle's capacity at
  every index.
\<close>

fun is_chain :: "routing_solution \<Rightarrow> nat list \<Rightarrow> bool" where
  "is_chain env [] = False"
| "is_chain env [i] = IsEnd env i"
| "is_chain env (i # j # js) = (\<not> IsEnd env i \<and> NextValue env i = j \<and> is_chain env (j # js))"

definition customers_of :: "routing_solution \<Rightarrow> nat list \<Rightarrow> nat list" where
  "customers_of env chain = map (IndexToNode env) (butlast (tl chain))"

text \<open>
  The routing model has \<^verbatim>\<open>len(data['distance_matrix'])\<close> nodes (line 121); the
  customers are the nodes other than the depot.
\<close>

definition customer_nodes :: "data_model \<Rightarrow> nat list" where
  "customer_nodes data = filter (\<lambda>k. k \<noteq> depot data) [0..<length (distance_matrix data)]"

text \<open>
  Modelled from the spec: the cumulative values of the capacity dimension along a chain,
  starting from \<open>c\<close>. The transit of an arc is what \<^verbatim>\<open>demand_callback\<close> returns at
  the arc's from-index; there are no values when the callback raises.
\<close>

fun cumuls :: "data_model \<Rightarrow> routing_solution \<Rightarrow> int \<Rightarrow> nat list \<Rightarrow> int list option" where
  "cumuls data env c [] = Some []"
| "cumuls data env c [i] = Some [c]"
| "cumuls data env c (i # j # rest) =
     (case demand_callback data env i of
        Inl e \<Rightarrow> None
      | Inr d \<Rightarrow> map_option ((#) c) (cumuls data env (c + d) (j # rest)))"

text \<open>
  Modelled from the spec: the chain of one vehicle in a solution the library returns. It
  has the start and the end index at least, follows the next pointers from the vehicle's
  start to an end, is bound to the depot at both ends, and keeps the dimension within
  zero and the vehicle's capacity.
\<close>

definition valid_chain :: "data_model \<Rightarrow> routing_solution \<Rightarrow> nat \<Rightarrow> nat list \<Rightarrow> bool" where
  "valid_chain data env v chain =
     (2 \<le> length chain \<and> hd chain = Start env v \<and> is_chain env chain \<and>
      IndexToNode env (hd chain) = depot data \<and> IndexToNode env (last chain) = depot data \<and>
      (case cumuls data env 0 chain of
         None \<Rightarrow> False
       | Some cs \<Rightarrow> list_all (\<lambda>c. 0 \<le> c \<and> c \<le> vehicle_capacities data ! v) cs))"

text \<open>
  Modelled from the spec: a solution the library returns has one valid chain per vehicle,
  and the customers of the chains are the customer nodes, each exactly once.
\<close>

definition valid_solution :: "data_model \<Rightarrow> routing_solution \<Rightarrow> nat list list \<Rightarrow> bool" where
  "valid_solution data env chs =
     (length chs = nat (num_vehicles data) \<and>
      (\<forall>v \<in> set [0..<length chs]. valid_chain data env v (chs ! v)) \<and>
      mset (concat (map (customers_of env) chs)) = mset (customer_nodes data))"


text \<open>
  Modelled from the spec: the arc cost of the library is the travel cost between the two
  nodes, read from the distance matrix by \<^verbatim>\<open>distance_callback\<close> (registered for all
  vehicles at line 132); the cost of the arc from an index to itself is zero. The arcs
  constrained are those \<^verbatim>\<open>print_solution\<close> asks for: from each index of a chain to
  the next, and from the start to itself.
\<close>

definition arc_cost_ok :: "data_model \<Rightarrow> routing_solution \<Rightarrow> nat \<Rightarrow> nat \<times> nat \<Rightarrow> bool" where
  "arc_cost_ok data env v arc =
     (case arc of (i, j) \<Rightarrow>
        if i = j then GetArcCostForVehicle env i j v = 0
        else distance_callback data env i j = Inr (GetArcCostForVehicle env i j v))"

definition arc_costs_ok :: "data_model \<Rightarrow> routing_solution \<Rightarrow> nat list list \<Rightarrow> bool" where
  "arc_costs_ok data env chs =
     (\<forall>v \<in> set [0..<length chs].
        list_all (arc_cost_ok data env v) (zip (hd (chs ! v) # chs ! v) (chs ! v)))"

subsection \<open>The invariants of the data model\<close>

text \<open>
  The invariants that hold of the data model before a solve, as far as the results below
  need them: one demand per node, a square matrix, one capacity per vehicle, and zero
  demand and zero self-distance at the depot.
\<close>

definition model_invariants :: "data_model \<Rightarrow> bool" where
  "model_invariants data =
     (length (demands data) = length (distance_matrix data) \<and>
      (\<forall>row \<in> set (distance_matrix data). length row = length (distance_matrix data)) \<and>
      int (length (vehicle_capacities data)) = num_vehicles data \<and>
      depot data < length (demands data) \<and>
      demands data ! depot data = 0 \<and>
      distance_matrix data ! depot data ! depot data = 0)"


subsection \<open>The decoded routes\<close>

text \<open>
  The routes \<^verbatim>\<open>print_solution\<close> builds, one per vehicle in the order of the vehicles,
  and those among them that it reports (line 93). A route that could not be decoded
  counts as empty. The customers of a route are the nodes of its entries other than the
  first and the last.
\<close>

definition decode_route :: "data_model \<Rightarrow> routing_solution \<Rightarrow> nat \<Rightarrow> nat \<times> stop list" where
  "decode_route data env v =
     (case vehicle_route data env v of Some (Inr r) \<Rightarrow> r | _ \<Rightarrow> (0, []))"

definition decoded_routes :: "data_model \<Rightarrow> routing_solution \<Rightarrow> (nat \<times> stop list) list" where
  "decoded_routes data env = map (decode_route data env) [0..<nat (num_vehicles data)]"

definition is_reported :: "nat \<times> stop list \<Rightarrow> bool" where
  "is_reported r = (length (snd r) > 2)"

definition reported_routes :: "data_model \<Rightarrow> routing_solution \<Rightarrow> (nat \<times> stop list) list" where
  "reported_routes data env = filter is_reported (decoded_routes data env)"

definition route_customers :: "nat \<times> stop list \<Rightarrow> nat list" where
  "route_customers r = map fst (butlast (tl (snd r)))"

text \<open>
  The final distance and load of a route, as lines 107 and 108 read them:
  \<^verbatim>\<open>route[-1][2] if route else 0\<close> and \<^verbatim>\<open>route[-1][1] if route else 0\<close>.
\<close>

definition final_distance :: "nat \<times> stop list \<Rightarrow> int" where
  "final_distance r = (if snd r \<noteq> [] then stop_distance (last (snd r)) else 0)"

definition final_load :: "nat \<times> stop list \<Rightarrow> int" where
  "final_load r = (if snd r \<noteq> [] then stop_load (last (snd r)) else 0)"

definition decodes :: "data_model \<Rightarrow> routing_solution \<Rightarrow> nat \<Rightarrow> bool" where
  "decodes data env v = (case vehicle_route data env v of Some (Inr r) \<Rightarrow> True | _ \<Rightarrow> False)"

definition all_decoded :: "data_model \<Rightarrow> routing_solution \<Rightarrow> bool" where
  "all_decoded data env = list_all (decodes data env) [0..<nat (num_vehicles data)]"

text \<open>\<^verbatim>\<open>enumerate(xs, start=k)\<close>.\<close>

fun numbered :: "int \<Rightarrow> 'a list \<Rightarrow> (int \<times> 'a) list" where
  "numbered k [] = []"
| "numbered k (x # xs) = (k, x) # numbered (k + 1) xs"

definition trips_text :: "routing_solution \<Rightarrow> (int \<times> nat \<times> stop list) list \<Rightarrow> string" where
  "trips_text env trips =
     concat (map (\<lambda>(trip_number, index, route). plan_output trip_number env index route) trips)"

text \<open>
  The entries of a route written without the loop: the node, the running load and the
  running distance of every index of a chain.
\<close>

fun stops ::
  "data_model \<Rightarrow> routing_solution \<Rightarrow> nat \<Rightarrow> nat \<Rightarrow> int \<Rightarrow> int \<Rightarrow> nat list \<Rightarrow> stop list" where
  "stops data env v previous_index load distance [] = []"
| "stops data env v previous_index load distance (i # rest) =
     (IndexToNode env i,
      load + demands data ! IndexToNode env i,
      distance + GetArcCostForVehicle env previous_index i v) #
     stops data env v i
       (load + demands data ! IndexToNode env i)
       (distance + GetArcCostForVehicle env previous_index i v)
       rest"

subsection \<open>A concrete instance\<close>

text \<open>
  The instance of the specification's example: two customers with demands 3 and 4,
  capacity 10. \<open>example_data\<close> is what \<^verbatim>\<open>create_data_model\<close> returns for it. Two
  solutions of it follow, over the indices 0 (start of vehicle 0), 1 and 2 (the
  customers), 3 (start of vehicle 1), 4 and 5 (the ends): in the first, vehicle 1 serves
  both customers and vehicle 0 stays empty; in the second, each vehicle serves one.
\<close>

definition example_data :: data_model where
  "example_data =
     \<lparr> distance_matrix = [[0, 1, 2], [1, 0, 3], [2, 3, 0]], demands = [0, 3, 4],
       vehicle_capacities = [10, 10], num_vehicles = 2, depot = 0 \<rparr>"

definition example_nodes :: "nat \<Rightarrow> nat" where
  "example_nodes i = (if i = 1 then 1 else if i = 2 then 2 else 0)"

definition example_cost :: "nat \<Rightarrow> nat \<Rightarrow> nat \<Rightarrow> int" where
  "example_cost i j v =
     (if i = j then 0
      else [[0, 1, 2], [1, 0, 3], [2, 3, 0]] ! example_nodes i ! example_nodes j)"

definition one_trip :: routing_solution where
  "one_trip =
     \<lparr> Start = (\<lambda>v. if v = 0 then 0 else 3), IsEnd = (\<lambda>i. 4 \<le> i), IndexToNode = example_nodes,
       NextValue = (\<lambda>i. if i = 0 then 4 else if i = 3 then 1 else if i = 1 then 2 else 5),
       GetArcCostForVehicle = example_cost \<rparr>"

definition two_trips :: routing_solution where
  "two_trips =
     \<lparr> Start = (\<lambda>v. if v = 0 then 0 else 3), IsEnd = (\<lambda>i. 4 \<le> i), IndexToNode = example_nodes,
       NextValue = (\<lambda>i. if i = 0 then 1 else if i = 1 then 4 else if i = 3 then 2 else 5),
       GetArcCostForVehicle = example_cost \<rparr>"


section \<open>Construction of the data model\<close>

text \<open>
  Claim C9. \<^verbatim>\<open>create_data_model\<close> fails exactly when the length of the customer demand
  list differs from the vehicle count (which is \<^verbatim>\<open>num_customers\<close>); otherwise it
  returns the model whose demand list starts with the depot's demand 0, followed by the
  customers' demands, with \<^verbatim>\<open>num_customers\<close> vehicles, one capacity per vehicle, and
  every capacity equal to \<^verbatim>\<open>vehicle_capacity\<close>.
\<close>

theorem create_data_model_fails_iff:
  "((\<exists>e. create_data_model n c ds es = Inl e) \<longleftrightarrow> int (length ds) \<noteq> n) \<and>
   (int (length ds) = n \<longrightarrow>
      (\<exists>d. create_data_model n c ds es = Inr d \<and>
           demands d = 0 # ds \<and> demands d ! depot d = 0 \<and>
           num_vehicles d = n \<and>
           int (length (vehicle_capacities d)) = num_vehicles d \<and>
           (\<forall>x \<in> set (vehicle_capacities d). x = c) \<and>
           distance_matrix d = es))"
  by (auto simp: create_data_model_def Let_def)

theorem create_data_model_fails_iff_witness:
  "((\<exists>e. create_data_model 2 10 [3, 4] [[0, 1, 2], [1, 0, 3], [2, 3, 0]] = Inl e)
      \<longleftrightarrow> int (length [3, 4 :: int]) \<noteq> 2) \<and>
   int (length [3, 4 :: int]) = 2 \<and>
   (\<exists>d. create_data_model 2 10 [3, 4] [[0, 1, 2], [1, 0, 3], [2, 3, 0]] = Inr d \<and>
        demands d = [0, 3, 4] \<and> num_vehicles d = 2 \<and> vehicle_capacities d = [10, 10])"
  using create_data_model_fails_iff [of 2 10 "[3, 4]" "[[0, 1, 2], [1, 0, 3], [2, 3, 0]]"]
  by (auto simp: create_data_model_def Let_def numeral_2_eq_2)

section \<open>Validation of the raw input\<close>

lemma py_int_accepted: "accepted t \<Longrightarrow> py_int t = Inr (int_of t)"
  by (auto simp: accepted_def is_integer_def over_limit_def py_int_def int_of_def
           split: option.splits)

lemma py_int_not_accepted: "\<not> accepted t \<Longrightarrow> \<exists>m. py_int t = Inl (ValueError m)"
  by (auto simp: accepted_def is_integer_def over_limit_def py_int_def split: option.splits)

lemma map_int_ok: "list_all accepted ts \<Longrightarrow> map_int ts = Inr (map int_of ts)"
  by (induction ts) (simp_all add: py_int_accepted)

lemma map_int_bad: "\<not> list_all accepted ts \<Longrightarrow> \<exists>m. map_int ts = Inl (ValueError m)"
proof (induction ts)
  case Nil
  then show ?case by simp
next
  case (Cons t ts)
  show ?case
  proof (cases "accepted t")
    case True
    with Cons.prems have "\<not> list_all accepted ts" by simp
    from Cons.IH [OF this] True show ?thesis by (auto simp: py_int_accepted)
  next
    case False
    from py_int_not_accepted [OF this] show ?thesis by auto
  qed
qed

lemma parse_rows_ok:
  "list_all row_ok lines \<Longrightarrow>
   parse_rows lines = Inr (map (\<lambda>line. map int_of (split CHR '','' line)) lines)"
  by (induction lines) (simp_all add: row_ok_def map_int_ok)

lemma parse_rows_bad:
  "\<not> list_all row_ok lines \<Longrightarrow> \<exists>m. parse_rows lines = Inl (ValueError m)"
proof (induction lines)
  case Nil
  then show ?case by simp
next
  case (Cons l ls)
  show ?case
  proof (cases "row_ok l")
    case True
    with Cons.prems have "\<not> list_all row_ok ls" by simp
    from Cons.IH [OF this] True show ?thesis by (auto simp: row_ok_def map_int_ok)
  next
    case False
    then obtain m where "map_int (split CHR '','' l) = Inl (ValueError m)"
      using map_int_bad unfolding row_ok_def by blast
    then show ?thesis by simp
  qed
qed

lemma check_rows_ok: "\<forall>row \<in> set rows. length row = n \<Longrightarrow> check_rows n rows = Inr ()"
  by (induction rows) simp_all

lemma check_rows_bad:
  "\<exists>row \<in> set rows. length row \<noteq> n \<Longrightarrow> check_rows n rows = Inl (ValueError (Text square_message))"
  by (induction rows) auto

lemma check_cells_ok: "\<forall>p \<in> set ps. cell_ok m p \<Longrightarrow> check_cells m ps = Inr ()"
  by (induction m ps rule: check_cells.induct) (auto simp: cell_ok_def)

lemma check_cells_bad:
  "\<exists>p \<in> set ps. \<not> cell_ok m p \<Longrightarrow> \<exists>s. check_cells m ps = Inl (ValueError (Text s))"
  by (induction m ps rule: check_cells.induct) (auto simp: cell_ok_def)

lemma cells_ok_iff:
  "(\<forall>p \<in> set (index_pairs (length m)). cell_ok m p) \<longleftrightarrow>
   \<not> asymmetric m \<and> \<not> nonzero_diagonal m \<and> \<not> zero_off_diagonal m"
  unfolding index_pairs_def asymmetric_def nonzero_diagonal_def zero_off_diagonal_def cell_ok_def
  by auto

lemma tokens_ok_iff:
  "\<not> non_integer_token a b c d \<and> \<not> over_limit_token a b c d \<longleftrightarrow>
     accepted a \<and> accepted b \<and> list_all accepted (split CHR '','' c) \<and>
     list_all row_ok (split CHR '';'' d)"
  unfolding non_integer_token_def over_limit_token_def raw_tokens_def row_ok_def accepted_def
  by (auto simp: list_all_iff)

lemma parse_body_ok:
  assumes "\<not> rejected a b c d"
  shows "parse_body a b c d = Inr (int_of a, int_of b, raw_demands c, raw_matrix d)"
proof -
  from assms have nm: "\<not> malformed a b c d" and "\<not> over_limit_token a b c d"
    by (simp_all add: rejected_def)
  then have tok: "accepted a" "accepted b" "list_all accepted (split CHR '','' c)"
      "list_all row_ok (split CHR '';'' d)"
    using tokens_ok_iff [of a b c d] by (simp_all add: malformed_def)
  from nm have cnt: "int (length (raw_demands c)) = int_of a"
    by (simp add: malformed_def demand_count_mismatch_def)
  from nm have sq: "int (length (raw_matrix d)) = int_of a + 1"
      "\<forall>row \<in> set (raw_matrix d). length row = length (raw_matrix d)"
    by (auto simp: malformed_def non_square_def)
  from nm have cells: "\<forall>p \<in> set (index_pairs (length (raw_matrix d))). cell_ok (raw_matrix d) p"
    using cells_ok_iff [of "raw_matrix d"] by (simp add: malformed_def)
  have rows: "parse_rows (split CHR '';'' d) = Inr (raw_matrix d)"
    using parse_rows_ok [OF tok(4)] by (simp add: raw_matrix_def)
  have dem: "map_int (split CHR '','' c) = Inr (raw_demands c)"
    using map_int_ok [OF tok(3)] by (simp add: raw_demands_def)
  show ?thesis
    unfolding parse_body_def
    using py_int_accepted [OF tok(1)] py_int_accepted [OF tok(2)] dem cnt rows sq(1)
      check_rows_ok [OF sq(2)] check_cells_ok [OF cells]
    by simp
qed

lemma parse_body_bad:
  assumes "rejected a b c d"
  shows "\<exists>m. parse_body a b c d = Inl (ValueError m)"
proof (cases "accepted a")
  case False
  from py_int_not_accepted [OF this] show ?thesis by (auto simp: parse_body_def)
next
  case a: True
  note pa = py_int_accepted [OF a]
  show ?thesis
  proof (cases "accepted b")
    case False
    from py_int_not_accepted [OF this] pa show ?thesis by (auto simp: parse_body_def)
  next
    case b: True
    note pb = py_int_accepted [OF b]
    show ?thesis
    proof (cases "list_all accepted (split CHR '','' c)")
      case False
      from map_int_bad [OF this] pa pb show ?thesis
        by (auto simp: parse_body_def)
    next
      case c_ok: True
      note dem = map_int_ok [OF c_ok]
      show ?thesis
      proof (cases "int (length (raw_demands c)) = int_of a")
        case False
        with pa pb dem show ?thesis
          by (simp add: parse_body_def raw_demands_def)
      next
        case cnt: True
        show ?thesis
        proof (cases "list_all row_ok (split CHR '';'' d)")
          case False
          from parse_rows_bad [OF this] pa pb dem cnt show ?thesis
            by (auto simp: parse_body_def raw_demands_def)
        next
          case d_ok: True
          have rows: "parse_rows (split CHR '';'' d) = Inr (raw_matrix d)"
            using parse_rows_ok [OF d_ok] by (simp add: raw_matrix_def)
          have tok: "\<not> non_integer_token a b c d" "\<not> over_limit_token a b c d"
            using tokens_ok_iff [of a b c d] a b c_ok d_ok by simp_all
          show ?thesis
          proof (cases "int (length (raw_matrix d)) = int_of a + 1")
            case False
            with pa pb dem cnt rows show ?thesis
              by (simp add: parse_body_def raw_demands_def)
          next
            case len: True
            show ?thesis
            proof (cases "\<forall>row \<in> set (raw_matrix d). length row = length (raw_matrix d)")
              case False
              then have "\<exists>row \<in> set (raw_matrix d). length row \<noteq> length (raw_matrix d)" by simp
              from check_rows_bad [OF this] pa pb dem cnt rows len show ?thesis
                by (simp add: parse_body_def raw_demands_def)
            next
              case sq: True
              with len have "\<not> non_square a d"
                by (auto simp: non_square_def)
              with assms tok cnt
              have "\<exists>p \<in> set (index_pairs (length (raw_matrix d))). \<not> cell_ok (raw_matrix d) p"
                using cells_ok_iff [of "raw_matrix d"]
                by (auto simp: rejected_def malformed_def demand_count_mismatch_def)
              from check_cells_bad [OF this] pa pb dem cnt rows len check_rows_ok [OF sq]
              show ?thesis
                by (auto simp: parse_body_def raw_demands_def)
            qed
          qed
        qed
      qed
    qed
  qed
qed

lemma parse_digits_replicate:
  "is_digit c \<Longrightarrow> c \<noteq> CHR ''_'' \<Longrightarrow> \<exists>v. parse_digits acc (replicate n c) = Some v"
  by (induction n arbitrary: acc) simp_all

lemma ones_literal:
  "strip (map to_ascii (replicate 4301 CHR ''1'')) = replicate 4301 CHR ''1''"
  "digit_count (replicate 4301 CHR ''1'') = 4301"
  "\<exists>v. parse_signed (replicate 4301 CHR ''1'') = Some v"
proof -
  show "strip (map to_ascii (replicate 4301 CHR ''1'')) = replicate 4301 CHR ''1''"
    by (simp add: strip_def to_ascii_def is_space_def)
  show "digit_count (replicate 4301 CHR ''1'') = 4301"
    by (simp add: digit_count_def is_digit_def)
  have d: "is_digit CHR ''1''" by (simp add: is_digit_def)
  have "replicate 4301 CHR ''1'' = CHR ''1'' # replicate 4300 CHR ''1''"
    by (simp add: replicate_Suc [symmetric] del: replicate_Suc replicate.simps)
  moreover obtain v where "parse_digits (digit_val CHR ''1'') (replicate 4300 CHR ''1'') = Some v"
    using parse_digits_replicate [OF d] by blast
  ultimately show "\<exists>v. parse_signed (replicate 4301 CHR ''1'') = Some v"
    using d by (simp add: parse_signed_def parse_unsigned_def)
qed

lemma py_int_ones: "py_int (replicate 4301 CHR ''1'') = Inl (ValueError (Exceeds_limit 4301))"
  unfolding py_int_def ones_literal(1) ones_literal(2)
  using ones_literal(3) by (auto simp: max_str_digits_def)

lemma is_integer_ones: "is_integer (replicate 4301 CHR ''1'')"
  unfolding is_integer_def ones_literal(1)
  using ones_literal(3) by auto

text \<open>
  Claim C6, as stated, fails. A vehicle capacity written with 4301 digits is an integer,
  and the input has none of the listed faults, yet \<^verbatim>\<open>int()\<close> refuses to convert it and
  \<^verbatim>\<open>parse_input\<close> raises.
\<close>

theorem parse_input_rejects_long_integer:
  "parse_input ''2'' (replicate 4301 CHR ''1'') ''3,4'' ''0,1,2;1,0,3;2,3,0'' =
     Inl (ValueError (Invalid_input (Exceeds_limit 4301))) \<and>
   \<not> malformed ''2'' (replicate 4301 CHR ''1'') ''3,4'' ''0,1,2;1,0,3;2,3,0''"
proof -
  have two: "py_int ''2'' = Inr 2" by code_simp
  have 1: "parse_input ''2'' (replicate 4301 CHR ''1'') ''3,4'' ''0,1,2;1,0,3;2,3,0'' =
      Inl (ValueError (Invalid_input (Exceeds_limit 4301)))"
    by (simp add: parse_input_def parse_body_def two py_int_ones)
  have toks: "list_all is_integer (''2'' # split CHR '','' ''3,4'' @
      concat (map (split CHR '','') (split CHR '';'' ''0,1,2;1,0,3;2,3,0'')))"
    by code_simp
  have a: "\<not> non_integer_token ''2'' (replicate 4301 CHR ''1'') ''3,4'' ''0,1,2;1,0,3;2,3,0''"
    using toks is_integer_ones
    unfolding non_integer_token_def raw_tokens_def list_all_iff by auto
  have b: "\<not> demand_count_mismatch ''2'' ''3,4''" by code_simp
  have c: "\<not> non_square ''2'' ''0,1,2;1,0,3;2,3,0''" by code_simp
  have d: "\<not> asymmetric (raw_matrix ''0,1,2;1,0,3;2,3,0'')"
    "\<not> nonzero_diagonal (raw_matrix ''0,1,2;1,0,3;2,3,0'')"
    "\<not> zero_off_diagonal (raw_matrix ''0,1,2;1,0,3;2,3,0'')"
    by code_simp+
  from 1 a b c d show ?thesis by (simp add: malformed_def)
qed

text \<open>
  Claim C6, amended. \<^verbatim>\<open>parse_input\<close> raises if and only if the raw input has a token
  that is not an integer, a token of more than 4300 digits, a demand count different from
  \<^verbatim>\<open>num_customers\<close>, a matrix that is not \<open>(n+1) \<times> (n+1)\<close>, an asymmetric matrix,
  a nonzero diagonal entry or a zero off-diagonal entry. What it raises is then a
  \<^verbatim>\<open>ValueError\<close> with the one message \<^verbatim>\<open>Invalid input: ...\<close>; on every other input
  it returns the parsed tuple.
\<close>

theorem parse_input_raises_iff:
  "((\<exists>e. parse_input a b c d = Inl e) \<longleftrightarrow> rejected a b c d) \<and>
   (rejected a b c d \<longrightarrow> (\<exists>m. parse_input a b c d = Inl (ValueError (Invalid_input m)))) \<and>
   (\<not> rejected a b c d \<longrightarrow>
      parse_input a b c d = Inr (int_of a, int_of b, raw_demands c, raw_matrix d))"
proof (cases "rejected a b c d")
  case True
  from parse_body_bad [OF this] True show ?thesis
    by (auto simp: parse_input_def)
next
  case False
  from parse_body_ok [OF this] False show ?thesis
    by (simp add: parse_input_def)
qed

theorem parse_input_raises_iff_witness:
  "rejected ''2'' ''10'' ''3,4'' ''0,1,2;1,0,3;2,3'' \<and>
   (\<exists>m. parse_input ''2'' ''10'' ''3,4'' ''0,1,2;1,0,3;2,3'' = Inl (ValueError (Invalid_input m))) \<and>
   \<not> rejected ''2'' ''10'' ''3,4'' ''0,1,2;1,0,3;2,3,0'' \<and>
   parse_input ''2'' ''10'' ''3,4'' ''0,1,2;1,0,3;2,3,0'' =
     Inr (2, 10, [3, 4], [[0, 1, 2], [1, 0, 3], [2, 3, 0]])"
proof -
  have bad: "rejected ''2'' ''10'' ''3,4'' ''0,1,2;1,0,3;2,3''"
    by code_simp
  have good: "\<not> rejected ''2'' ''10'' ''3,4'' ''0,1,2;1,0,3;2,3,0''"
    by code_simp
  have val: "(int_of ''2'', int_of ''10'', raw_demands ''3,4'', raw_matrix ''0,1,2;1,0,3;2,3,0'') =
      (2, 10, [3, 4], [[0, 1, 2], [1, 0, 3], [2, 3, 0]])"
    by code_simp
  have 1: "\<exists>m. parse_input ''2'' ''10'' ''3,4'' ''0,1,2;1,0,3;2,3'' = Inl (ValueError (Invalid_input m))"
    using parse_input_raises_iff [of "''2''" "''10''" "''3,4''" "''0,1,2;1,0,3;2,3''"] bad
    by blast
  have 2: "parse_input ''2'' ''10'' ''3,4'' ''0,1,2;1,0,3;2,3,0'' =
      Inr (int_of ''2'', int_of ''10'', raw_demands ''3,4'', raw_matrix ''0,1,2;1,0,3;2,3,0'')"
    using parse_input_raises_iff [of "''2''" "''10''" "''3,4''" "''0,1,2;1,0,3;2,3,0''"] good
    by blast
  from bad good 1 2 val show ?thesis by simp
qed

text \<open>
  Claim C7, as stated, fails: \<^verbatim>\<open>parse_input\<close> checks no sign. The input below has a
  negative capacity, a negative demand and negative distances, and is returned.
\<close>

theorem parse_input_accepts_negative:
  "parse_input ''1'' ''-5'' ''-3'' ''0,-1;-1,0'' = Inr (1, - 5, [- 3], [[0, - 1], [- 1, 0]]) \<and>
   \<not> sign_constraints (- 5) [- 3] [[0, - 1], [- 1, 0]]"
proof -
  have "parse_input ''1'' ''-5'' ''-3'' ''0,-1;-1,0'' = Inr (1, - 5, [- 3], [[0, - 1], [- 1, 0]])"
    by code_simp
  moreover have "\<not> sign_constraints (- 5) [- 3] [[0, - 1], [- 1, 0]]"
    by (simp add: sign_constraints_def)
  ultimately show ?thesis by simp
qed

text \<open>
  Claim C7, amended. Every tuple \<^verbatim>\<open>parse_input\<close> returns has as many demands as
  customers and a matrix of \<open>n + 1\<close> rows of \<open>n + 1\<close> entries that is symmetric, zero
  on the diagonal and nonzero (of either sign) off the diagonal. Nothing is promised
  about the sign of the capacity or of the demands.
\<close>

theorem parse_input_returns_validated:
  assumes "parse_input a b c d = Inr (n, cap, ds, m)"
  shows "int (length ds) = n \<and> int (length m) = n + 1 \<and>
         (\<forall>row \<in> set m. int (length row) = n + 1) \<and>
         (\<forall>i \<in> set [0..<length m]. \<forall>j \<in> set [0..<length m].
            m ! i ! j = m ! j ! i \<and> (i = j \<longrightarrow> m ! i ! j = 0) \<and> (i \<noteq> j \<longrightarrow> m ! i ! j \<noteq> 0))"
proof (cases "rejected a b c d")
  case True
  from parse_body_bad [OF this] assms show ?thesis
    by (auto simp: parse_input_def)
next
  case False
  from parse_body_ok [OF this] assms
  have eq: "n = int_of a" "ds = raw_demands c" "m = raw_matrix d"
    by (simp_all add: parse_input_def)
  from False have "\<not> demand_count_mismatch a c" "\<not> non_square a d" "\<not> asymmetric m"
      "\<not> nonzero_diagonal m" "\<not> zero_off_diagonal m"
    by (simp_all add: rejected_def malformed_def eq)
  then show ?thesis
    unfolding demand_count_mismatch_def non_square_def asymmetric_def nonzero_diagonal_def
      zero_off_diagonal_def eq
    by auto
qed

theorem parse_input_returns_validated_witness:
  "parse_input ''1'' ''-5'' ''-3'' ''0,-1;-1,0'' = Inr (1, - 5, [- 3], [[0, - 1], [- 1, 0]]) \<and>
   [[0, - 1], [- 1, 0 :: int]] ! 0 ! 1 \<noteq> 0 \<and> [[0, - 1], [- 1, 0 :: int]] ! 0 ! 0 = 0 \<and>
   [[0, - 1], [- 1, 0 :: int]] ! 0 ! 1 = [[0, - 1], [- 1, 0 :: int]] ! 1 ! 0"
proof -
  have h: "parse_input ''1'' ''-5'' ''-3'' ''0,-1;-1,0'' = Inr (1, - 5, [- 3], [[0, - 1], [- 1, 0]])"
    by code_simp
  from parse_input_returns_validated [OF h] h show ?thesis by simp
qed

section \<open>Decoding a valid solution\<close>

lemma demand_lookup:
  assumes "model_invariants data" and "IndexToNode env i < length (distance_matrix data)"
  shows "py_nth (demands data) (IndexToNode env i) = Inr (demands data ! IndexToNode env i)"
  using assms by (simp add: model_invariants_def py_nth_def)

lemma close_walk_chain:
  assumes inv: "model_invariants data"
  shows "is_chain env (i # rest) \<Longrightarrow>
     \<forall>k \<in> set (i # rest). IndexToNode env k < length (distance_matrix data) \<Longrightarrow>
     close_route data env v (walk data env v i p load dist route) =
       Some (Inr (last (i # rest), route @ stops data env v p load dist (i # rest)))"
proof (induction rest arbitrary: i p load dist route)
  case Nil
  then have "IsEnd env i" by simp
  then have "walk data env v i p load dist route = Some (Inr (i, p, load, dist, route))"
    by (subst walk.simps) simp
  with Nil.prems demand_lookup [OF inv, of env i] show ?case
    by (simp add: close_route_def)
next
  case (Cons j js)
  from Cons.prems(1) have ne: "\<not> IsEnd env i" and nx: "NextValue env i = j"
    and ch: "is_chain env (j # js)"
    by simp_all
  from Cons.prems(2) have rng: "\<forall>k \<in> set (j # js). IndexToNode env k < length (distance_matrix data)"
    and ri: "IndexToNode env i < length (distance_matrix data)"
    by simp_all
  let ?d = "demands data ! IndexToNode env i"
  let ?c = "GetArcCostForVehicle env p i v"
  have step: "walk data env v i p load dist route =
      walk data env v j i (load + ?d) (dist + ?c) (route @ [(IndexToNode env i, load + ?d, dist + ?c)])"
    using ne nx demand_lookup [OF inv ri]
    by (subst walk.simps) simp
  show ?case
    unfolding step
    using Cons.IH [OF ch rng] by simp
qed

lemma chain_split:
  "2 \<le> length chain \<Longrightarrow> chain = hd chain # butlast (tl chain) @ [last chain]"
  by (cases chain) (auto simp: Suc_le_eq)

lemma valid_chain_of:
  "valid_solution data env chs \<Longrightarrow> v < length chs \<Longrightarrow> valid_chain data env v (chs ! v)"
  by (simp add: valid_solution_def)

lemma valid_chainD:
  assumes "valid_chain data env v ch"
  shows "2 \<le> length ch" and "hd ch = Start env v" and "is_chain env ch"
    and "IndexToNode env (hd ch) = depot data" and "IndexToNode env (last ch) = depot data"
    and "\<exists>cs. cumuls data env 0 ch = Some cs \<and>
              (\<forall>c \<in> set cs. 0 \<le> c \<and> c \<le> vehicle_capacities data ! v)"
  using assms unfolding valid_chain_def
  by (auto simp: list_all_iff split: option.splits)

lemma customers_subset:
  assumes "valid_solution data env chs" and "v < length chs"
  shows "set (customers_of env (chs ! v)) \<subseteq> set (customer_nodes data)"
proof -
  from assms(1) have "set (concat (map (customers_of env) chs)) = set (customer_nodes data)"
    unfolding valid_solution_def by (metis set_mset_mset)
  moreover from assms(2) have "set (customers_of env (chs ! v)) \<subseteq> set (concat (map (customers_of env) chs))"
    by (auto intro!: bexI [of _ "chs ! v"])
  ultimately show ?thesis by simp
qed

lemma chain_in_range:
  assumes val: "valid_solution data env chs" and inv: "model_invariants data"
    and v: "v < length chs"
  shows "\<forall>k \<in> set (chs ! v). IndexToNode env k < length (distance_matrix data)"
proof
  fix k assume k: "k \<in> set (chs ! v)"
  let ?ch = "chs ! v"
  note vc = valid_chainD [OF valid_chain_of [OF val v]]
  from inv have dep: "depot data < length (distance_matrix data)"
    by (simp add: model_invariants_def)
  from k chain_split [OF vc(1)]
  have "k = hd ?ch \<or> k = last ?ch \<or> k \<in> set (butlast (tl ?ch))"
    by (metis Un_iff insert_iff list.set(2) set_append empty_iff list.set(1))
  then show "IndexToNode env k < length (distance_matrix data)"
  proof (elim disjE)
    assume "k \<in> set (butlast (tl ?ch))"
    then have "IndexToNode env k \<in> set (customers_of env ?ch)"
      by (simp add: customers_of_def)
    with customers_subset [OF val v] have "IndexToNode env k \<in> set (customer_nodes data)"
      by blast
    then show ?thesis by (simp add: customer_nodes_def)
  qed (use vc(4,5) dep in simp_all)
qed

lemma vehicle_route_chain:
  assumes val: "valid_solution data env chs" and inv: "model_invariants data"
    and v: "v < length chs"
  shows "vehicle_route data env v =
     Some (Inr (last (chs ! v), stops data env v (Start env v) 0 0 (chs ! v)))"
proof -
  let ?ch = "chs ! v"
  note vc = valid_chainD [OF valid_chain_of [OF val v]]
  from vc(1) obtain i rest where ch: "?ch = i # rest" by (cases ?ch) auto
  with vc(2) have i: "i = Start env v" by simp
  from chain_in_range [OF val inv v] ch
  have rng: "\<forall>k \<in> set (i # rest). IndexToNode env k < length (distance_matrix data)"
    by simp
  from vc(3) ch have "is_chain env (i # rest)" by simp
  from close_walk_chain [OF inv this rng, of v i 0 0 "[]"] show ?thesis
    by (simp add: vehicle_route_def ch i)
qed

lemma stops_length: "length (stops data env v p c dist chain) = length chain"
  by (induction chain arbitrary: p c dist) simp_all

lemma stops_nodes: "map fst (stops data env v p c dist chain) = map (IndexToNode env) chain"
  by (induction chain arbitrary: p c dist) simp_all

lemma demand_callback_value:
  "demand_callback data env i = Inr d \<Longrightarrow> d = demands data ! IndexToNode env i"
  by (simp add: demand_callback_def py_nth_def split: if_splits)

lemma cumuls_Cons:
  assumes "cumuls data env c (i # j # rest) = Some cs"
  shows "\<exists>cs'. cs = c # cs' \<and>
           cumuls data env (c + demands data ! IndexToNode env i) (j # rest) = Some cs'"
  using assms demand_callback_value [of data env i]
  by (auto split: sum.splits)

lemma cumuls_hd:
  assumes "cumuls data env c (i # rest) = Some cs"
  shows "\<exists>cs'. cs = c # cs'"
proof (cases rest)
  case Nil
  with assms show ?thesis by auto
next
  case (Cons j js)
  from assms [unfolded Cons] cumuls_Cons show ?thesis by blast
qed

lemma stops_loads:
  "chain \<noteq> [] \<Longrightarrow> cumuls data env c chain = Some cs \<Longrightarrow>
   map stop_load (stops data env v p c dist chain) =
     tl cs @ [last cs + demands data ! IndexToNode env (last chain)]"
proof (induction chain arbitrary: p c dist cs)
  case Nil
  then show ?case by simp
next
  case (Cons i rest)
  show ?case
  proof (cases rest)
    case Nil
    with Cons.prems show ?thesis by (auto simp: stop_load_def)
  next
    case rest: (Cons j js)
    let ?c' = "c + demands data ! IndexToNode env i"
    from Cons.prems(2) [unfolded rest] cumuls_Cons obtain cs' where cs: "cs = c # cs'"
      and cs': "cumuls data env ?c' (j # js) = Some cs'"
      by blast
    from cumuls_hd [OF cs'] obtain cs'' where hd: "cs' = ?c' # cs''"
      by blast
    have ne: "rest \<noteq> []" using rest by simp
    note cs' = cs' [folded rest]
    from Cons.IH [OF ne cs', of i "dist + GetArcCostForVehicle env p i v"] ne
    show ?thesis
      by (simp add: cs hd stop_load_def)
  qed
qed

lemma stops_load_step:
  "Suc k < length chain \<Longrightarrow>
   stop_load (stops data env v p c dist chain ! Suc k) =
     stop_load (stops data env v p c dist chain ! k) +
     demands data ! fst (stops data env v p c dist chain ! Suc k)"
proof (induction chain arbitrary: p c dist k)
  case Nil
  then show ?case by simp
next
  case (Cons i rest)
  then obtain j js where rest: "rest = j # js" by (cases rest) auto
  show ?case
  proof (cases k)
    case 0
    then show ?thesis by (simp add: rest stop_load_def)
  next
    case (Suc k')
    with Cons.prems have "Suc k' < length rest" by simp
    from Cons.IH [OF this] Suc show ?thesis by simp
  qed
qed

text \<open>
  Claim C1. On a valid solution, the route that \<^verbatim>\<open>print_solution\<close> decodes for a
  vehicle has load 0 at its first entry (the start node), at every later entry the load
  of the entry before plus the demand of the entry's own node, and at every entry a
  load that is at most the capacity of that vehicle.
\<close>

theorem route_loads_within_capacity:
  assumes val: "valid_solution data env chs" and inv: "model_invariants data"
    and v: "v < nat (num_vehicles data)"
  shows "\<exists>index route. vehicle_route data env v = Some (Inr (index, route)) \<and> route \<noteq> [] \<and>
           stop_load (hd route) = 0 \<and>
           (\<forall>k. Suc k < length route \<longrightarrow>
              stop_load (route ! Suc k) = stop_load (route ! k) + demands data ! fst (route ! Suc k)) \<and>
           (\<forall>s \<in> set route. stop_load s \<le> vehicle_capacities data ! v)"
proof -
  from val v have v': "v < length chs" by (simp add: valid_solution_def)
  let ?ch = "chs ! v"
  let ?route = "stops data env v (Start env v) 0 0 ?ch"
  note vc = valid_chainD [OF valid_chain_of [OF val v']]
  from vc(6) obtain cs where cs: "cumuls data env 0 ?ch = Some cs"
    and bound: "\<forall>c \<in> set cs. 0 \<le> c \<and> c \<le> vehicle_capacities data ! v"
    by blast
  from inv have dep: "demands data ! depot data = 0" by (simp add: model_invariants_def)
  from vc(1) have ne: "?ch \<noteq> []" by auto
  have r: "vehicle_route data env v = Some (Inr (last ?ch, ?route))"
    by (rule vehicle_route_chain [OF val inv v'])
  have rne: "?route \<noteq> []"
    using ne stops_length [of data env v "Start env v" 0 0 ?ch] by auto
  have first: "stop_load (hd ?route) = 0"
    using ne vc(4) dep by (cases ?ch) (simp_all add: stop_load_def)
  have step: "\<forall>k. Suc k < length ?route \<longrightarrow>
      stop_load (?route ! Suc k) = stop_load (?route ! k) + demands data ! fst (?route ! Suc k)"
    by (simp add: stops_length stops_load_step)
  from ne obtain i rest where "?ch = i # rest" by (cases ?ch) auto
  with cs cumuls_hd [of data env 0 i rest cs] have cne: "cs \<noteq> []"
    by auto
  have loads: "map stop_load ?route = tl cs @ [last cs]"
    using stops_loads [OF ne cs, of v "Start env v" 0] vc(5) dep by simp
  have "set (map stop_load ?route) \<subseteq> set cs"
    unfolding loads using cne by (auto dest: list.set_sel(2))
  with bound have cap: "\<forall>s \<in> set ?route. stop_load s \<le> vehicle_capacities data ! v"
    by auto
  from r rne first step cap show ?thesis by blast
qed

theorem route_loads_within_capacity_witness:
  "valid_solution example_data one_trip [[0, 4], [3, 1, 2, 5]] \<and>
   model_invariants example_data \<and>
   (\<exists>index route. vehicle_route example_data one_trip 1 = Some (Inr (index, route)) \<and>
      route = [(0, 0, 0), (1, 3, 1), (2, 7, 4), (0, 7, 6)] \<and>
      stop_load (hd route) = 0 \<and> list_all (\<lambda>s. stop_load s \<le> 10) route)"
proof -
  have val: "valid_solution example_data one_trip [[0, 4], [3, 1, 2, 5]]"
    by code_simp
  have inv: "model_invariants example_data"
    by code_simp
  have v: "(1::nat) < nat (num_vehicles example_data)"
    by (simp add: example_data_def)
  have r: "vehicle_route example_data one_trip 1 =
      Some (Inr (5, [(0, 0, 0), (1, 3, 1), (2, 7, 4), (0, 7, 6)]))"
    by code_simp
  have cap: "vehicle_capacities example_data ! 1 = 10"
    by (simp add: example_data_def)
  from route_loads_within_capacity [OF val inv v] r cap
  have "stop_load (hd [(0::nat, 0::int, 0::int), (1, 3, 1), (2, 7, 4), (0, 7, 6)]) = 0 \<and>
        list_all (\<lambda>s. stop_load s \<le> 10) [(0::nat, 0::int, 0::int), (1, 3, 1), (2, 7, 4), (0, 7, 6)]"
    by (auto simp: list_all_iff)
  with val inv r show ?thesis by simp
qed

section \<open>The report\<close>

lemma trips_text_Cons:
  "trips_text env ((k, index, route) # trips) = plan_output k env index route @ trips_text env trips"
  by (simp add: trips_text_def)

lemma vehicles_loop_result:
  assumes "list_all (decodes data env) vs"
  shows "vehicles_loop data env vs (tdist, tload, out, trip) =
     Some (Inr (tdist + sum_list (map final_distance (map (decode_route data env) vs)),
                tload + sum_list (map final_load (map (decode_route data env) vs)),
                out @ trips_text env (numbered trip (filter is_reported (map (decode_route data env) vs))),
                trip + int (length (filter is_reported (map (decode_route data env) vs)))))"
  using assms
proof (induction vs arbitrary: tdist tload out trip)
  case Nil
  then show ?case by (simp add: trips_text_def)
next
  case (Cons v vs)
  from Cons.prems obtain index route where r: "vehicle_route data env v = Some (Inr (index, route))"
    by (auto simp: decodes_def split: option.splits sum.splits)
  then have d: "decode_route data env v = (index, route)"
    by (simp add: decode_route_def)
  from Cons.prems have rest: "list_all (decodes data env) vs" by simp
  show ?case
  proof (cases "length route > 2")
    case True
    then have "route \<noteq> []" by auto
    with True r d Cons.IH [OF rest] show ?thesis
      by (simp add: is_reported_def final_distance_def final_load_def trips_text_Cons)
  next
    case False
    with r d Cons.IH [OF rest] show ?thesis
      by (simp add: is_reported_def final_distance_def final_load_def)
  qed
qed

lemma vehicles_loop_undecoded:
  "\<not> list_all (decodes data env) vs \<Longrightarrow> vehicles_loop data env vs state \<noteq> Some (Inr final)"
proof (induction vs arbitrary: state)
  case Nil
  then show ?case by simp
next
  case (Cons v vs)
  obtain tdist tload out trip where st: "state = (tdist, tload, out, trip)"
    by (cases state) auto
  show ?case
  proof (cases "decodes data env v")
    case True
    with Cons.prems have "\<not> list_all (decodes data env) vs" by simp
    from Cons.IH [OF this] True show ?thesis
      by (auto simp: st decodes_def split: option.splits sum.splits)
  next
    case False
    then show ?thesis
      by (auto simp: st decodes_def split: option.splits sum.splits)
  qed
qed

lemma print_solution_undecoded:
  "\<not> all_decoded data env \<Longrightarrow> print_solution data env \<noteq> Some (Inr out)"
  using vehicles_loop_undecoded [of data env "[0..<nat (num_vehicles data)]" "(0, 0, [], 1)"]
  by (auto simp: print_solution_def all_decoded_def split: option.splits sum.splits)

lemma trips_text_numbered:
  "trips_text env (numbered k rs) =
     concat (map (\<lambda>i. ''Route for trip '' @ str_int (k + int i) @ '':\<newline>'' @
                        route_lines env (fst (rs ! i)) (snd (rs ! i)))
               [0..<length rs])"
proof (induction rs arbitrary: k)
  case Nil
  then show ?case by (simp add: trips_text_def)
next
  case (Cons r rs)
  obtain index route where r: "r = (index, route)" by (cases r)
  have up: "[0..<length (r # rs)] = 0 # map Suc [0..<length rs]"
    by (simp add: upt_conv_Cons map_Suc_upt del: upt_Suc)
  have sh: "\<And>i. k + 1 + int i = k + int (Suc i)" by simp
  show ?case
    unfolding up
    by (simp add: r trips_text_Cons Cons.IH plan_output_def newline_def comp_def sh
             del: of_nat_Suc)
qed

lemma print_solution_decoded:
  assumes "all_decoded data env"
  shows "print_solution data env =
     Some (Inr (concat (map (\<lambda>i. ''Route for trip '' @ str_int (1 + int i) @ '':\<newline>'' @
                                  route_lines env (fst (reported_routes data env ! i))
                                    (snd (reported_routes data env ! i)))
                         [0..<length (reported_routes data env)]) @
                ''\<newline>Total distance of all routes: '' @
                str_int (sum_list (map final_distance (decoded_routes data env))) @
                ''m\<newline>Total load of all routes: '' @
                str_int (sum_list (map final_load (decoded_routes data env)))))"
proof -
  from assms have "list_all (decodes data env) [0..<nat (num_vehicles data)]"
    by (simp add: all_decoded_def)
  from vehicles_loop_result [OF this, of 0 0 "[]" 1]
  show ?thesis
    by (simp add: print_solution_def reported_routes_def decoded_routes_def
          trips_text_numbered totals_text_def newline_def)
qed

text \<open>
  Claim C10. \<^verbatim>\<open>print_solution\<close> produces a text exactly when every vehicle's route
  can be decoded. The text is then the blocks of the reported routes, in the order of
  the vehicles, followed by the two lines of totals; the block of the reported route at
  position \<open>i\<close>, counting from 0, starts with the line \<^verbatim>\<open>Route for trip\<close> \<open>i + 1\<close>,
  so the numbers run from 1 without a gap over the routes of more than two entries only.
  A vehicle with an empty route takes no number, whatever its index.
\<close>

theorem trip_numbers_consecutive:
  "((\<exists>out. print_solution data env = Some (Inr out)) \<longleftrightarrow> all_decoded data env) \<and>
   (all_decoded data env \<longrightarrow>
      print_solution data env =
        Some (Inr (concat (map (\<lambda>i. ''Route for trip '' @ str_int (1 + int i) @ '':\<newline>'' @
                                     route_lines env (fst (reported_routes data env ! i))
                                       (snd (reported_routes data env ! i)))
                            [0..<length (reported_routes data env)]) @
                   ''\<newline>Total distance of all routes: '' @
                   str_int (sum_list (map final_distance (decoded_routes data env))) @
                   ''m\<newline>Total load of all routes: '' @
                   str_int (sum_list (map final_load (decoded_routes data env))))))"
proof (cases "all_decoded data env")
  case True
  from print_solution_decoded [OF True] True show ?thesis by simp
next
  case False
  with print_solution_undecoded [OF False] show ?thesis by simp
qed

theorem trip_numbers_consecutive_witness:
  "all_decoded example_data one_trip \<and>
   print_solution example_data one_trip =
     Some (Inr ''Route for trip 1:\<newline> 0 Load(0) Distance(0) -> 1 Load(3) Distance(1) -> 2 Load(7) Distance(4) -> 0 Load(7) Distance(6)\<newline>Distance of the route: 6m\<newline>Load of the route: 7\<newline>\<newline>\<newline>Total distance of all routes: 6m\<newline>Total load of all routes: 7'') \<and>
   all_decoded example_data two_trips \<and>
   print_solution example_data two_trips =
     Some (Inr ''Route for trip 1:\<newline> 0 Load(0) Distance(0) -> 1 Load(3) Distance(1) -> 0 Load(3) Distance(2)\<newline>Distance of the route: 2m\<newline>Load of the route: 3\<newline>\<newline>Route for trip 2:\<newline> 0 Load(0) Distance(0) -> 2 Load(4) Distance(2) -> 0 Load(4) Distance(4)\<newline>Distance of the route: 4m\<newline>Load of the route: 4\<newline>\<newline>\<newline>Total distance of all routes: 6m\<newline>Total load of all routes: 7'')"
proof -
  have h1: "all_decoded example_data one_trip" by code_simp
  have h2: "all_decoded example_data two_trips" by code_simp
  have e1: "concat (map (\<lambda>i. ''Route for trip '' @ str_int (1 + int i) @ '':\<newline>'' @
                                route_lines one_trip (fst (reported_routes example_data one_trip ! i))
                                  (snd (reported_routes example_data one_trip ! i)))
                       [0..<length (reported_routes example_data one_trip)]) @
              ''\<newline>Total distance of all routes: '' @
              str_int (sum_list (map final_distance (decoded_routes example_data one_trip))) @
              ''m\<newline>Total load of all routes: '' @
              str_int (sum_list (map final_load (decoded_routes example_data one_trip))) =
      ''Route for trip 1:\<newline> 0 Load(0) Distance(0) -> 1 Load(3) Distance(1) -> 2 Load(7) Distance(4) -> 0 Load(7) Distance(6)\<newline>Distance of the route: 6m\<newline>Load of the route: 7\<newline>\<newline>\<newline>Total distance of all routes: 6m\<newline>Total load of all routes: 7''"
    by code_simp
  have e2: "concat (map (\<lambda>i. ''Route for trip '' @ str_int (1 + int i) @ '':\<newline>'' @
                                route_lines two_trips (fst (reported_routes example_data two_trips ! i))
                                  (snd (reported_routes example_data two_trips ! i)))
                       [0..<length (reported_routes example_data two_trips)]) @
              ''\<newline>Total distance of all routes: '' @
              str_int (sum_list (map final_distance (decoded_routes example_data two_trips))) @
              ''m\<newline>Total load of all routes: '' @
              str_int (sum_list (map final_load (decoded_routes example_data two_trips))) =
      ''Route for trip 1:\<newline> 0 Load(0) Distance(0) -> 1 Load(3) Distance(1) -> 0 Load(3) Distance(2)\<newline>Distance of the route: 2m\<newline>Load of the route: 3\<newline>\<newline>Route for trip 2:\<newline> 0 Load(0) Distance(0) -> 2 Load(4) Distance(2) -> 0 Load(4) Distance(4)\<newline>Distance of the route: 4m\<newline>Load of the route: 4\<newline>\<newline>\<newline>Total distance of all routes: 6m\<newline>Total load of all routes: 7''"
    by code_simp
  from trip_numbers_consecutive [of example_data one_trip] h1
  have p1: "print_solution example_data one_trip = Some (Inr (''Route for trip 1:\<newline> 0 Load(0) Distance(0) -> 1 Load(3) Distance(1) -> 2 Load(7) Distance(4) -> 0 Load(7) Distance(6)\<newline>Distance of the route: 6m\<newline>Load of the route: 7\<newline>\<newline>\<newline>Total distance of all routes: 6m\<newline>Total load of all routes: 7''))"
    unfolding e1 by blast
  from trip_numbers_consecutive [of example_data two_trips] h2
  have p2: "print_solution example_data two_trips = Some (Inr (''Route for trip 1:\<newline> 0 Load(0) Distance(0) -> 1 Load(3) Distance(1) -> 0 Load(3) Distance(2)\<newline>Distance of the route: 2m\<newline>Load of the route: 3\<newline>\<newline>Route for trip 2:\<newline> 0 Load(0) Distance(0) -> 2 Load(4) Distance(2) -> 0 Load(4) Distance(4)\<newline>Distance of the route: 4m\<newline>Load of the route: 4\<newline>\<newline>\<newline>Total distance of all routes: 6m\<newline>Total load of all routes: 7''))"
    unfolding e2 by blast
  from h1 p1 h2 p2 show ?thesis by blast
qed

section \<open>Totals and coverage on a valid solution\<close>

lemma decode_route_valid:
  assumes val: "valid_solution data env chs" and inv: "model_invariants data"
    and v: "v < length chs"
  shows "decode_route data env v = (last (chs ! v), stops data env v (Start env v) 0 0 (chs ! v))"
    and "decodes data env v"
  using vehicle_route_chain [OF val inv v]
  by (simp_all add: decode_route_def decodes_def)

lemma decoded_routes_valid:
  assumes val: "valid_solution data env chs" and inv: "model_invariants data"
  shows "decoded_routes data env =
           map (\<lambda>v. (last (chs ! v), stops data env v (Start env v) 0 0 (chs ! v))) [0..<length chs]"
    and "all_decoded data env"
proof -
  from val have len: "length chs = nat (num_vehicles data)"
    by (simp add: valid_solution_def)
  show "decoded_routes data env =
          map (\<lambda>v. (last (chs ! v), stops data env v (Start env v) 0 0 (chs ! v))) [0..<length chs]"
    unfolding decoded_routes_def len [symmetric]
    by (rule map_cong [OF refl]) (simp add: decode_route_valid(1) [OF val inv])
  show "all_decoded data env"
    by (simp add: all_decoded_def list_all_iff len [symmetric] decode_route_valid(2) [OF val inv])
qed

lemma map_chains:
  "map (\<lambda>v. f (chs ! v)) [0..<length chs] = map f chs"
proof -
  have "map (\<lambda>v. f (chs ! v)) [0..<length chs] = map f (map (\<lambda>v. chs ! v) [0..<length chs])"
    by (simp add: comp_def)
  then show ?thesis by (simp only: map_nth)
qed

lemma route_customers_stops:
  "route_customers (x, stops data env v p c dist ch) = customers_of env ch"
proof -
  have "map fst (butlast (tl (stops data env v p c dist ch))) =
        butlast (tl (map fst (stops data env v p c dist ch)))"
    by (simp add: map_butlast map_tl)
  then show ?thesis
    by (simp add: route_customers_def customers_of_def stops_nodes map_butlast map_tl)
qed

lemma is_reported_stops: "is_reported (x, stops data env v p c dist ch) \<longleftrightarrow> 2 < length ch"
  by (simp add: is_reported_def stops_length)

lemma short_chain_customers:
  assumes "\<not> 2 < length ch"
  shows "customers_of env ch = []"
proof -
  have "butlast (tl ch) = []"
  proof (cases ch)
    case Nil
    then show ?thesis by simp
  next
    case (Cons a as)
    with assms have "length as \<le> 1" by simp
    then have "butlast as = []" by (cases as) simp_all
    with Cons show ?thesis by simp
  qed
  then show ?thesis by (simp add: customers_of_def)
qed

lemma cumuls_last:
  "chain \<noteq> [] \<Longrightarrow> cumuls data env c chain = Some cs \<Longrightarrow>
   last cs = c + sum_list (map (\<lambda>i. demands data ! IndexToNode env i) (butlast chain))"
proof (induction chain arbitrary: c cs)
  case Nil
  then show ?case by simp
next
  case (Cons i rest)
  show ?case
  proof (cases rest)
    case Nil
    with Cons.prems show ?thesis by auto
  next
    case rest: (Cons j js)
    let ?c' = "c + demands data ! IndexToNode env i"
    from Cons.prems(2) [unfolded rest] cumuls_Cons obtain cs' where cs: "cs = c # cs'"
      and cs': "cumuls data env ?c' (j # js) = Some cs'"
      by blast
    from cumuls_hd [OF cs'] have ne': "cs' \<noteq> []" by blast
    have ne: "rest \<noteq> []" using rest by simp
    from Cons.IH [OF ne cs' [folded rest]] ne ne' show ?thesis
      by (simp add: cs)
  qed
qed

lemma final_load_stops:
  assumes vc: "valid_chain data env v ch" and dep: "demands data ! depot data = 0"
  shows "final_load (x, stops data env v p 0 dist ch) =
           sum_list (map (\<lambda>k. demands data ! k) (customers_of env ch))"
proof -
  note d = valid_chainD [OF vc]
  from d(6) obtain cs where cs: "cumuls data env 0 ch = Some cs" by blast
  from d(1) have ne: "ch \<noteq> []" by auto
  then have sne: "stops data env v p 0 dist ch \<noteq> []"
    using stops_length [of data env v p 0 dist ch] by auto
  have "stop_load (last (stops data env v p 0 dist ch)) =
        last (map stop_load (stops data env v p 0 dist ch))"
    using sne by (simp add: last_map)
  also have "\<dots> = last cs"
    using stops_loads [OF ne cs, of v p dist] d(5) dep by simp
  also have "\<dots> = sum_list (map (\<lambda>i. demands data ! IndexToNode env i) (butlast ch))"
    using cumuls_last [OF ne cs] by simp
  also have "butlast ch = hd ch # butlast (tl ch)"
    using d(1) by (cases ch) (auto simp: Suc_le_eq)
  finally show ?thesis
    using sne d(4) dep by (simp add: final_load_def customers_of_def comp_def)
qed

lemma distance_callback_value:
  "distance_callback data env i j = Inr c \<Longrightarrow>
   c = distance_matrix data ! IndexToNode env i ! IndexToNode env j"
  by (auto simp: distance_callback_def py_nth_def split: if_splits sum.splits)

lemma arc_cost_depot:
  assumes "arc_cost_ok data env v (i, j)"
    and "IndexToNode env i = depot data" and "IndexToNode env j = depot data"
    and "distance_matrix data ! depot data ! depot data = 0"
  shows "GetArcCostForVehicle env i j v = 0"
proof (cases "i = j")
  case True
  with assms(1) show ?thesis by (simp add: arc_cost_ok_def)
next
  case False
  with assms(1) have "distance_callback data env i j = Inr (GetArcCostForVehicle env i j v)"
    by (simp add: arc_cost_ok_def)
  from distance_callback_value [OF this] assms(2-4) show ?thesis by simp
qed

lemma short_chain_distance:
  assumes vc: "valid_chain data env v ch" and short: "\<not> 2 < length ch"
    and arcs: "list_all (arc_cost_ok data env v) (zip (hd ch # ch) ch)"
    and zero: "distance_matrix data ! depot data ! depot data = 0"
  shows "final_distance (x, stops data env v (hd ch) 0 0 ch) = 0"
proof -
  note d = valid_chainD [OF vc]
  from d(1) short have "length ch = Suc (Suc 0)" by simp
  then obtain s e where ch: "ch = [s, e]"
    by (auto simp: length_Suc_conv)
  from d(4,5) ch have ns: "IndexToNode env s = depot data" and ne: "IndexToNode env e = depot data"
    by simp_all
  from arcs ch have a1: "arc_cost_ok data env v (s, s)" and a2: "arc_cost_ok data env v (s, e)"
    by simp_all
  from arc_cost_depot [OF a1 ns ns zero] arc_cost_depot [OF a2 ns ne zero] show ?thesis
    by (simp add: ch final_distance_def stop_distance_def)
qed

lemma sum_list_filter_zero:
  "\<forall>x \<in> set xs. \<not> P x \<longrightarrow> f x = (0::int) \<Longrightarrow>
   sum_list (map f (filter P xs)) = sum_list (map f xs)"
  by (induction xs) auto


lemma created_model:
  assumes "create_data_model n cap ds es = Inr data"
  shows "demands data = 0 # ds" and "depot data = 0" and "num_vehicles data = n"
    and "vehicle_capacities data = replicate (nat n) cap" and "distance_matrix data = es"
    and "int (length ds) = n"
  using assms by (auto simp: create_data_model_def Let_def split: if_splits)

lemma customer_nodes_created:
  assumes cr: "create_data_model n cap ds es = Inr data" and inv: "model_invariants data"
  shows "customer_nodes data = [Suc 0..<Suc (length ds)]"
proof -
  from inv created_model(1) [OF cr] have len: "length (distance_matrix data) = Suc (length ds)"
    by (simp add: model_invariants_def)
  have "customer_nodes data = filter (\<lambda>k. k \<noteq> 0) (0 # [Suc 0..<Suc (length ds)])"
    by (simp add: customer_nodes_def len created_model(2) [OF cr] upt_conv_Cons del: upt_Suc)
  also have "\<dots> = [Suc 0..<Suc (length ds)]"
    by (simp del: upt_Suc)
  finally show ?thesis .
qed

lemma customer_demands:
  assumes cr: "create_data_model n cap ds es = Inr data" and inv: "model_invariants data"
  shows "map (\<lambda>k. demands data ! k) (customer_nodes data) = ds"
proof -
  have "[Suc 0..<Suc (length ds)] = map Suc [0..<length ds]"
    by (simp only: map_Suc_upt)
  then have "map (\<lambda>k. demands data ! k) (customer_nodes data) = map (\<lambda>k. ds ! k) [0..<length ds]"
    by (simp add: customer_nodes_created [OF cr inv] created_model(1) [OF cr] comp_def
             del: upt_Suc)
  then show ?thesis by (simp add: map_nth)
qed

lemma sum_list_mset_cong:
  fixes f :: "'a \<Rightarrow> int"
  assumes "mset xs = mset ys"
  shows "sum_list (map f xs) = sum_list (map f ys)"
proof -
  have "sum_list (map f xs) = sum_mset (image_mset f (mset xs))"
    by (metis mset_map sum_mset_sum_list)
  also have "\<dots> = sum_mset (image_mset f (mset ys))"
    by (simp add: assms)
  also have "\<dots> = sum_list (map f ys)"
    by (metis mset_map sum_mset_sum_list)
  finally show ?thesis .
qed

lemma sum_list_map_concat:
  fixes f :: "'a \<Rightarrow> int"
  shows "sum_list (map f (concat xss)) = sum_list (map (\<lambda>xs. sum_list (map f xs)) xss)"
  by (induction xss) simp_all

lemma loads_cover_customers:
  assumes val: "valid_solution data env chs" and inv: "model_invariants data"
  shows "sum_list (map final_load (decoded_routes data env)) =
         sum_list (map (\<lambda>k. demands data ! k) (customer_nodes data))"
proof -
  from inv have dep: "demands data ! depot data = 0" by (simp add: model_invariants_def)
  have "sum_list (map final_load (decoded_routes data env)) =
        sum_list (map (\<lambda>v. sum_list (map (\<lambda>k. demands data ! k) (customers_of env (chs ! v))))
                    [0..<length chs])"
    unfolding decoded_routes_valid(1) [OF val inv] map_map comp_def
  proof (rule arg_cong [where f = sum_list], rule map_cong [OF refl])
    fix v assume "v \<in> set [0..<length chs]"
    then have "valid_chain data env v (chs ! v)"
      using valid_chain_of [OF val] by simp
    from final_load_stops [OF this dep]
    show "final_load (last (chs ! v), stops data env v (Start env v) 0 0 (chs ! v)) =
          sum_list (map (\<lambda>k. demands data ! k) (customers_of env (chs ! v)))" .
  qed
  also have "\<dots> = sum_list (map (\<lambda>ch. sum_list (map (\<lambda>k. demands data ! k) (customers_of env ch))) chs)"
    using map_chains [of "\<lambda>ch. sum_list (map (\<lambda>k. demands data ! k) (customers_of env ch))" chs]
    by simp
  also have "\<dots> = sum_list (map (\<lambda>k. demands data ! k) (concat (map (customers_of env) chs)))"
    by (simp add: sum_list_map_concat comp_def)
  also have "\<dots> = sum_list (map (\<lambda>k. demands data ! k) (customer_nodes data))"
    using val by (intro sum_list_mset_cong) (simp add: valid_solution_def)
  finally show ?thesis .
qed

lemma unreported_customers:
  assumes val: "valid_solution data env chs" and inv: "model_invariants data"
    and r: "r \<in> set (decoded_routes data env)" and nr: "\<not> is_reported r"
  shows "final_load r = 0" and "route_customers r = []"
proof -
  from inv have dep: "demands data ! depot data = 0"
    by (simp add: model_invariants_def)
  from r obtain v where v: "v < length chs"
    and req: "r = (last (chs ! v), stops data env v (Start env v) 0 0 (chs ! v))"
    unfolding decoded_routes_valid(1) [OF val inv] by auto
  note vc = valid_chain_of [OF val v]
  from nr have short: "\<not> 2 < length (chs ! v)" by (simp add: req is_reported_stops)
  show "final_load r = 0"
    unfolding req by (simp add: final_load_stops [OF vc dep] short_chain_customers [OF short])
  show "route_customers r = []"
    unfolding req by (simp add: route_customers_stops short_chain_customers [OF short])
qed

lemma unreported_distance:
  assumes val: "valid_solution data env chs" and inv: "model_invariants data"
    and arcs: "arc_costs_ok data env chs"
    and r: "r \<in> set (decoded_routes data env)" and nr: "\<not> is_reported r"
  shows "final_distance r = 0"
proof -
  from inv have zero: "distance_matrix data ! depot data ! depot data = 0"
    by (simp add: model_invariants_def)
  from r obtain v where v: "v < length chs"
    and req: "r = (last (chs ! v), stops data env v (Start env v) 0 0 (chs ! v))"
    unfolding decoded_routes_valid(1) [OF val inv] by auto
  note vc = valid_chain_of [OF val v]
  from nr have short: "\<not> 2 < length (chs ! v)" by (simp add: req is_reported_stops)
  from arcs v have a: "list_all (arc_cost_ok data env v) (zip (hd (chs ! v) # chs ! v) (chs ! v))"
    by (simp add: arc_costs_ok_def)
  from short_chain_distance [OF vc short a zero] valid_chainD(2) [OF vc]
  show ?thesis by (simp add: req)
qed

text \<open>
  Claim C5. On a valid solution of a created data model, with the library's arc costs,
  the text of \<^verbatim>\<open>print_solution\<close> ends with the two lines of totals. The distance
  printed there is the sum of the final distances of the reported routes, and the load
  printed there the sum of their final loads. Both are accumulated over all vehicles: a
  route that is not reported contributes zero to each. The total load is the sum of the
  customers' demands.
\<close>

theorem totals_consistent:
  assumes cr: "create_data_model n cap ds es = Inr data" and inv: "model_invariants data"
    and val: "valid_solution data env chs" and arcs: "arc_costs_ok data env chs"
  shows "\<exists>total_distance total_load result_text trip_number.
           vehicles_loop data env [0..<nat (num_vehicles data)] (0, 0, [], 1) =
             Some (Inr (total_distance, total_load, result_text, trip_number)) \<and>
           print_solution data env =
             Some (Inr (result_text @
                        ''\<newline>Total distance of all routes: '' @ str_int total_distance @
                        ''m\<newline>Total load of all routes: '' @ str_int total_load)) \<and>
           total_distance = sum_list (map final_distance (reported_routes data env)) \<and>
           total_distance = sum_list (map final_distance (decoded_routes data env)) \<and>
           total_load = sum_list (map final_load (reported_routes data env)) \<and>
           total_load = sum_list (map final_load (decoded_routes data env)) \<and>
           (\<forall>r \<in> set (decoded_routes data env).
              \<not> is_reported r \<longrightarrow> final_distance r = 0 \<and> final_load r = 0) \<and>
           total_load = sum_list ds"
proof -
  let ?rs = "decoded_routes data env"
  from decoded_routes_valid(2) [OF val inv]
  have dec: "list_all (decodes data env) [0..<nat (num_vehicles data)]"
    by (simp add: all_decoded_def)
  note loop = vehicles_loop_result [OF dec, of 0 0 "[]" 1]
  have zero: "\<forall>r \<in> set ?rs. \<not> is_reported r \<longrightarrow> final_distance r = 0 \<and> final_load r = 0"
    using unreported_customers(1) [OF val inv] unreported_distance [OF val inv arcs] by blast
  then have d: "sum_list (map final_distance (reported_routes data env)) = sum_list (map final_distance ?rs)"
    and l: "sum_list (map final_load (reported_routes data env)) = sum_list (map final_load ?rs)"
    unfolding reported_routes_def by (auto intro!: sum_list_filter_zero)
  have s: "sum_list (map final_load ?rs) = sum_list ds"
    using loads_cover_customers [OF val inv] customer_demands [OF cr inv] by simp
  show ?thesis
    using loop zero d l s
    by (simp add: print_solution_def decoded_routes_def totals_text_def newline_def)
qed

theorem totals_consistent_witness:
  "create_data_model 2 10 [3, 4] [[0, 1, 2], [1, 0, 3], [2, 3, 0]] = Inr example_data \<and>
   model_invariants example_data \<and>
   valid_solution example_data one_trip [[0, 4], [3, 1, 2, 5]] \<and>
   arc_costs_ok example_data one_trip [[0, 4], [3, 1, 2, 5]] \<and>
   map final_distance (decoded_routes example_data one_trip) = [0, 6] \<and>
   map final_load (decoded_routes example_data one_trip) = [0, 7] \<and>
   map final_distance (reported_routes example_data one_trip) = [6] \<and>
   map final_load (reported_routes example_data one_trip) = [7] \<and>
   (\<exists>result_text. print_solution example_data one_trip =
      Some (Inr (result_text @
                 ''\<newline>Total distance of all routes: 6m\<newline>Total load of all routes: 7'')))"
proof -
  have cr: "create_data_model 2 10 [3, 4] [[0, 1, 2], [1, 0, 3], [2, 3, 0]] = Inr example_data"
    by (simp add: create_data_model_def example_data_def Let_def numeral_2_eq_2)
  have inv: "model_invariants example_data"
    by code_simp
  have val: "valid_solution example_data one_trip [[0, 4], [3, 1, 2, 5]]"
    by code_simp
  have arcs: "arc_costs_ok example_data one_trip [[0, 4], [3, 1, 2, 5]]"
    by code_simp
  have d: "map final_distance (decoded_routes example_data one_trip) = [0, 6]"
    "map final_load (decoded_routes example_data one_trip) = [0, 7]"
    "map final_distance (reported_routes example_data one_trip) = [6]"
    "map final_load (reported_routes example_data one_trip) = [7]"
    by code_simp+
  have s: "str_int 6 = ''6''" "str_int 7 = ''7''"
    by code_simp+
  from totals_consistent [OF cr inv val arcs] obtain result_text
    where "print_solution example_data one_trip =
      Some (Inr (result_text @ ''\<newline>Total distance of all routes: '' @ str_int 6 @
                 ''m\<newline>Total load of all routes: '' @ str_int 7))"
    unfolding d by auto
  then have "\<exists>result_text. print_solution example_data one_trip =
      Some (Inr (result_text @
                 ''\<newline>Total distance of all routes: 6m\<newline>Total load of all routes: 7''))"
    by (simp add: s)
  with cr inv val arcs d show ?thesis by blast
qed



section \<open>Infeasible instances\<close>












section \<open>The example instance\<close>

text \<open>
  With a model the library accepts and a solution, \<^verbatim>\<open>solve_routing_problem\<close> returns
  the report of that solution.
\<close>

lemma solve_routing_problem_feasible:
  assumes "create_data_model n cap ds es = Inr data" and "library_accepts data"
    and "SolveWithParameters data = Some env"
  shows "solve_routing_problem SolveWithParameters n cap ds es = print_solution data env"
  using assms by (simp add: solve_routing_problem_def)

text \<open>
  The instance with demands 3 and 4 and capacity 10 has more than one valid solution.
  In \<open>one_trip\<close> a single vehicle serves both customers, and one route is reported; in
  \<open>two_trips\<close> each vehicle serves one customer, and two routes are reported. Both
  have total distance 6 and total load 7. Which of them the library's search returns is
  decided by code that is not part of the program.
\<close>

lemma example_one_trip:
  "valid_solution example_data one_trip [[0, 4], [3, 1, 2, 5]] \<and>
   arc_costs_ok example_data one_trip [[0, 4], [3, 1, 2, 5]] \<and>
   map route_customers (reported_routes example_data one_trip) = [[1, 2]] \<and>
   sum_list (map final_distance (decoded_routes example_data one_trip)) = 6 \<and>
   sum_list (map final_load (decoded_routes example_data one_trip)) = 7"
  by code_simp

lemma example_two_trips:
  "valid_solution example_data two_trips [[0, 1, 4], [3, 2, 5]] \<and>
   arc_costs_ok example_data two_trips [[0, 1, 4], [3, 2, 5]] \<and>
   map route_customers (reported_routes example_data two_trips) = [[1], [2]] \<and>
   sum_list (map final_distance (decoded_routes example_data two_trips)) = 6 \<and>
   sum_list (map final_load (decoded_routes example_data two_trips)) = 7"
  by code_simp

end
